theory Spec2Isabelle
  imports Main "HOL-Library.AList"
begin

chapter \<open>The embedding\<close>

section \<open>Exceptions, Python values and dictionaries\<close>

text \<open>
  Every \<^verbatim>\<open>raise\<close> and every failing \<^verbatim>\<open>assert\<close> of the source is a value of
  \<open>error\<close>; a function that may raise returns \<open>error + 'a\<close>, with \<open>Inl\<close> for the
  exception. An \<open>AssertionError\<close> carries the assertion that failed, so that the
  "Invalid ... usage" assertion of the intercepting forwards can be told from the
  \<^verbatim>\<open>isinstance\<close> assertions beside it.
\<close>

datatype assertion =
    InvalidPipelinedForwardUsage
  | InvalidPrefetchPipelinedForwardUsage
  | RequestNotAwaitable
  | NotMultistreamable
  | FwdHookIsNone
  | KjtDistCountMismatch nat nat
  | ContextsCount nat nat
  | ContextKeysMismatch
  | FusedSplitsAwaitablesEmpty
  | ForwardNotPipelined

datatype error =
    AttributeError
  | IndexError
  | KeyError
  | TypeError
  | AssertionError assertion
  | RecMetricException string
  | ModuleRaised string

text \<open>
  The raw batch and everything derived from it: \<^verbatim>\<open>None\<close>, integers, strings, lists,
  dictionaries keyed by \<^verbatim>\<open>Union[str, int]\<close> (the type of
  \<^verbatim>\<open>GetItemArgInfoStep.item_index\<close>) and objects with named data attributes.
  Attributes that Python's built-in types carry (methods of lists and so on) are outside
  this universe: \<open>py_getattr\<close> finds exactly the attributes of a \<open>VObj\<close>.
\<close>

datatype pykey = KInt int | KStr string

datatype pyval =
    VNone
  | VInt int
  | VStr string
  | VList "pyval list"
  | VDict "(pykey \<times> pyval) list"
  | VObj "(string \<times> pyval) list"

text \<open>\<^verbatim>\<open>getattr(obj, attr_name)\<close>.\<close>

definition py_getattr :: "pyval \<Rightarrow> string \<Rightarrow> error + pyval" where
  "py_getattr obj attr_name =
     (case obj of
        VObj attrs \<Rightarrow>
          (case map_of attrs attr_name of None \<Rightarrow> Inl AttributeError | Some v \<Rightarrow> Inr v)
      | _ \<Rightarrow> Inl AttributeError)"

text \<open>\<^verbatim>\<open>xs[i]\<close> on a sequence: a negative index counts from the end, an index out of
  range raises \<^verbatim>\<open>IndexError\<close>.\<close>

definition list_index :: "'a list \<Rightarrow> int \<Rightarrow> error + 'a" where
  "list_index xs i =
     (if 0 \<le> i \<and> i < int (length xs) then Inr (xs ! nat i)
      else if i < 0 \<and> - i \<le> int (length xs) then Inr (xs ! nat (int (length xs) + i))
      else Inl IndexError)"

text \<open>\<^verbatim>\<open>obj[item_index]\<close>.\<close>

definition py_getitem :: "pyval \<Rightarrow> pykey \<Rightarrow> error + pyval" where
  "py_getitem obj item_index =
     (case obj of
        VList xs \<Rightarrow>
          (case item_index of KInt i \<Rightarrow> list_index xs i | KStr _ \<Rightarrow> Inl TypeError)
      | VDict kvs \<Rightarrow>
          (case map_of kvs item_index of None \<Rightarrow> Inl KeyError | Some v \<Rightarrow> Inr v)
      | VStr s \<Rightarrow>
          (case item_index of
             KInt i \<Rightarrow> (case list_index s i of Inl e \<Rightarrow> Inl e | Inr c \<Rightarrow> Inr (VStr [c]))
           | KStr _ \<Rightarrow> Inl TypeError)
      | _ \<Rightarrow> Inl TypeError)"

text \<open>
  A \<^verbatim>\<open>dict\<close> is an association list in insertion order with distinct keys:
  \<^verbatim>\<open>k in d\<close> is \<open>dict_contains\<close>, \<^verbatim>\<open>d[k] = v\<close> is \<open>AList.update\<close> (in place for a key
  that is there, at the end for a new one), \<^verbatim>\<open>d.pop(k)\<close> is \<open>dict_pop\<close> and raises
  \<^verbatim>\<open>KeyError\<close> for a missing key, \<^verbatim>\<open>d.clear()\<close> leaves \<open>[]\<close>.
\<close>

definition dict_contains :: "'k \<Rightarrow> ('k \<times> 'v) list \<Rightarrow> bool" where
  "dict_contains k d = (map_of d k \<noteq> None)"

definition dict_pop :: "'k \<Rightarrow> ('k \<times> 'v) list \<Rightarrow> error + ('v \<times> ('k \<times> 'v) list)" where
  "dict_pop k d =
     (case map_of d k of None \<Rightarrow> Inl KeyError | Some v \<Rightarrow> Inr (v, AList.delete k d))"

section \<open>The module tree\<close>

text \<open>
  A \<^verbatim>\<open>torch.nn.Module\<close> object: its identity, the class the source tests with
  \<^verbatim>\<open>isinstance\<close>, what calling it computes, its \<^verbatim>\<open>_input_dists\<close> attribute when it has one,
  and its registered children in order. An input dist either has a \<^verbatim>\<open>_dist\<close> attribute
  (the identity of a \<^verbatim>\<open>KJTAllToAll\<close> object) or has none. A \<^verbatim>\<open>PipelinedPostproc\<close> in the
  tree carries the identity of the interceptor and has the wrapped module as its only
  child. The attributes that the pipeline reassigns (\<^verbatim>\<open>ShardedModule.forward\<close>,
  \<^verbatim>\<open>KJTAllToAll.forward\<close>) live in the heap below, keyed by identity. Every module
  object is assumed to occur once in the tree, so that the \<^verbatim>\<open>memo\<close> set of
  \<^verbatim>\<open>named_modules\<close> never suppresses anything.
\<close>

type_synonym module_fn = "pyval list \<Rightarrow> (string \<times> pyval) list \<Rightarrow> error + pyval"

datatype module_class = PlainModule | ShardedModule | PipelinedPostprocModule

datatype input_dist = InputDist (input_dist_dist: "nat option")

datatype module =
  Module (mod_id: nat) (mod_class: module_class) (mod_call: module_fn)
         (mod_input_dists: "input_dist list option") (mod_children: "(string \<times> module) list")

text \<open>The model handed to the pipeline is a module, possibly wrapped in
  \<^verbatim>\<open>DistributedModelParallel\<close>, whose \<^verbatim>\<open>module\<close> property gives the wrapped one.\<close>

datatype model = Bare module | DistributedModelParallel module

definition underlying :: "model \<Rightarrow> module" where
  "underlying m = (case m of Bare x \<Rightarrow> x | DistributedModelParallel x \<Rightarrow> x)"

definition join_path :: "string \<Rightarrow> string \<Rightarrow> string" where
  "join_path prefix name = (if prefix = [] then name else prefix @ ''.'' @ name)"

text \<open>
  \<^verbatim>\<open>Module.named_modules(prefix)\<close>: the module itself under \<open>prefix\<close>, then every child's
  modules under \<open>prefix.name\<close>. \<^verbatim>\<open>PipelinedPostproc.named_modules\<close> overrides it: the
  wrapper under \<open>prefix\<close>, then the wrapped module's under the same \<open>prefix\<close>.
\<close>

primrec named_modules :: "module \<Rightarrow> string \<Rightarrow> (string \<times> module) list" where
  "named_modules (Module i c f ds children) =
     (\<lambda>prefix.
        (prefix, Module i c f ds children) #
        concat (map (\<lambda>(name, sub). sub (if c = PipelinedPostprocModule then prefix
                                          else join_path prefix name))
                    (map (map_prod id named_modules) children)))"

text \<open>
  \<^verbatim>\<open>setattr(module, name, value)\<close> for a module value: \<^verbatim>\<open>Module.__setattr__\<close> stores it in
  \<^verbatim>\<open>_modules\<close> under the key \<open>name\<close> as it is written, dots included.
\<close>

definition setattr_module :: "module \<Rightarrow> string \<Rightarrow> module \<Rightarrow> module" where
  "setattr_module m name v =
     (case m of Module i c f ds children \<Rightarrow> Module i c f ds (AList.update name v children))"

text \<open>\<^verbatim>\<open>_find_postproc_module_recursive\<close>: the first module that \<^verbatim>\<open>named_modules\<close> yields
  under the name \<open>postproc_module_fqn\<close>.\<close>

definition find_postproc_module_recursive :: "module \<Rightarrow> string \<Rightarrow> module option" where
  "find_postproc_module_recursive m postproc_module_fqn =
     map_option snd (find (\<lambda>(name, child). name = postproc_module_fqn) (named_modules m []))"

text \<open>
  \<^verbatim>\<open>NodeArgsHelper._swap_postproc_module_recursive\<close>, the attach-time module swap: a
  \<^verbatim>\<open>PipelinedPostproc\<close> is returned as it is, the module at path \<open>postproc_module_fqn\<close>
  is replaced by \<open>to_swap_module\<close>, and every other module has each child replaced by the
  result of the recursive call on it.
\<close>

primrec swap_postproc_module_recursive :: "module \<Rightarrow> module \<Rightarrow> string \<Rightarrow> string \<Rightarrow> module" where
  "swap_postproc_module_recursive (Module i c f ds children) =
     (\<lambda>to_swap_module postproc_module_fqn path.
        if c = PipelinedPostprocModule then Module i c f ds children
        else if path = postproc_module_fqn then to_swap_module
        else Module i c f ds
               (map (\<lambda>(name, sub). (name, sub to_swap_module postproc_module_fqn (join_path path name)))
                    (map (map_prod id swap_postproc_module_recursive) children)))"

section \<open>Argument descriptors and training contexts\<close>

text \<open>
  The \<^verbatim>\<open>BaseArgInfoStep\<close> hierarchy, \<^verbatim>\<open>ArgInfo\<close>, \<^verbatim>\<open>CallArgs\<close> and
  \<^verbatim>\<open>PipelinedPostproc\<close>. An element of a \<^verbatim>\<open>ListArgInfoStep\<close> or \<^verbatim>\<open>DictArgInfoStep\<close> is
  either a nested \<^verbatim>\<open>ArgInfo\<close> or any other object, which is used as it is. A
  \<^verbatim>\<open>PipelinedPostproc\<close> is its identity, the wrapped \<^verbatim>\<open>_postproc_module\<close>, \<^verbatim>\<open>_fqn\<close> and
  \<^verbatim>\<open>_args\<close>; its \<^verbatim>\<open>_context\<close> attribute, which \<^verbatim>\<open>set_context\<close> reassigns, lives in the
  heap under that identity, so that every reference to the interceptor sees the same
  context. The streams of the interceptor only order device work and are not part of
  the value model.
\<close>

datatype step =
    NoopArgInfoStep
  | GetAttrArgInfoStep string
  | GetItemArgInfoStep pykey
  | PostprocArgInfoStep postproc
  | ScalarArgInfoStep pyval
  | ListArgInfoStep "elem list"
  | DictArgInfoStep "(string \<times> elem) list"
and elem = Plain pyval | Nested arginfo
and arginfo = ArgInfo "step list"
and postproc = PipelinedPostproc nat module string callargs
and callargs = CallArgs "arginfo list" "(string \<times> arginfo) list"

primrec pp_id :: "postproc \<Rightarrow> nat" where
  "pp_id (PipelinedPostproc i m fqn cargs) = i"

primrec postproc_module :: "postproc \<Rightarrow> module" where
  "postproc_module (PipelinedPostproc i m fqn cargs) = m"

primrec pp_fqn :: "postproc \<Rightarrow> string" where
  "pp_fqn (PipelinedPostproc i m fqn cargs) = fqn"

primrec pp_args :: "postproc \<Rightarrow> callargs" where
  "pp_args (PipelinedPostproc i m fqn cargs) = cargs"

text \<open>
  Modelled from the spec: the training context classes \<^verbatim>\<open>TrainPipelineContext\<close> and
  \<^verbatim>\<open>PrefetchTrainPipelineContext\<close> of \<^verbatim>\<open>pipeline_context.py\<close>, which is not among the
  sources. The spec's data model gives a context an index, a version tag and mutable
  maps keyed by the fully-qualified name of a sharded module: pending split requests,
  module execution contexts and resolved inputs, each before and after prefetch, and
  the cached outputs of auxiliary modules. The fields below are the attributes that
  \<^verbatim>\<open>utils.py\<close> reads and writes. Both classes are one record; \<open>ctx_is_prefetch\<close> is the
  class, for the \<^verbatim>\<open>isinstance\<close> assertion of \<^verbatim>\<open>_prefetch_context\<close>.

  What the maps hold is opaque to the pipeline but for two \<^verbatim>\<open>isinstance\<close> assertions: a
  request is an \<^verbatim>\<open>Awaitable\<close> (carrying what \<^verbatim>\<open>wait()\<close> returns) or some other object, and
  the data it yields is a \<^verbatim>\<open>Tensor\<close>/\<^verbatim>\<open>Multistreamable\<close> or not. A fused splits awaitable is
  represented by the list of requests that its \<^verbatim>\<open>wait()\<close> returns.
\<close>

datatype dist_input = Multistreamable nat | NotStreamable nat

datatype request = Awaitable dist_input | NotAnAwaitable nat

record pipeline_context =
  index :: "int option"
  version :: int
  ctx_is_prefetch :: bool
  input_dist_splits_requests :: "(string \<times> nat) list"
  input_dist_tensors_requests :: "(string \<times> request) list"
  module_contexts :: "(string \<times> nat) list"
  module_contexts_next_batch :: "(string \<times> nat) list"
  fused_splits_awaitables :: "(string list \<times> request list) list"
  postproc_fwd_results :: "(string \<times> pyval) list"
  module_input_post_prefetch :: "(string \<times> dist_input) list"
  module_contexts_post_prefetch :: "(string \<times> nat) list"

text \<open>
  \<^verbatim>\<open>BaseForward\<close> and its subclasses: the callable that replaces a sharded module's
  \<^verbatim>\<open>forward\<close>. \<open>fwd_module\<close> is the identity of the sharded module it was
  built for. A callable is an original forward (opaque, with an identity),
  an intercepting forward, or the \<^verbatim>\<open>KJTAllToAllForward\<close> that replaces an input dist's
  forward.
\<close>

datatype forward_class =
    PipelinedForward
  | EmbeddingPipelinedForward
  | InSyncEmbeddingPipelinedForward
  | PrefetchPipelinedForward

record base_forward =
  fwd_class :: forward_class
  fwd_name :: string
  fwd_args :: callargs
  fwd_module :: nat
  fwd_context :: nat
  fwd_stream :: "nat option"

datatype callable =
    OriginalForward nat
  | InterceptingForward base_forward
  | KJTAllToAllForward nat

text \<open>
  The heap: the objects that several references share and that the pipeline mutates.
  \<open>ctx_store\<close> holds the training contexts by address and \<open>next_ctx\<close> is the next free
  address; \<open>pp_context\<close> is \<^verbatim>\<open>PipelinedPostproc._context\<close>, \<open>module_forward\<close> is
  \<^verbatim>\<open>ShardedModule.forward\<close> and \<open>dist_forward\<close> is \<^verbatim>\<open>KJTAllToAll.forward\<close>, each by the
  identity of its object; \<open>forward_hooks\<close> are the handles of the hooks registered on
  the model. Two fields are instrumentation and no attribute of the source: \<open>exec_log\<close>
  records each execution of a wrapped postproc module, by the fqn of the interceptor
  that ran it and the identity of the module (the call counter of the spec's testable
  properties), and \<open>trace\<close> records the calls of \<^verbatim>\<open>_start_data_dist\<close> (with the context it
  works on), of \<^verbatim>\<open>wait_sparse_data_dist\<close> (with the context it waits on) and of
  \<^verbatim>\<open>_advance_context\<close> (with the context it removes and the one it creates).
\<close>

datatype event = StartDataDist nat | WaitSparseDataDist nat | AdvanceContext nat nat

record heap =
  ctx_store :: "nat \<Rightarrow> pipeline_context"
  next_ctx :: nat
  pp_context :: "nat \<Rightarrow> nat"
  module_forward :: "nat \<Rightarrow> callable"
  dist_forward :: "nat \<Rightarrow> callable"
  forward_hooks :: "nat list"
  exec_log :: "(string \<times> nat) list"
  trace :: "event list"

type_synonym 'a result = "error + ('a \<times> heap)"

type_synonym action = "pyval \<Rightarrow> heap \<Rightarrow> pyval result"

text \<open>
  The three loops of the argument reconstruction, over the actions of the steps or
  descriptors they run. \<open>run_loop\<close> is the loop of \<^verbatim>\<open>process_steps\<close>: each step receives
  the output of the one before. \<open>run_each\<close> and \<open>run_list\<close> are the comprehensions of
  \<^verbatim>\<open>ListArgInfoStep.process\<close>, \<^verbatim>\<open>DictArgInfoStep.process\<close> and \<^verbatim>\<open>build_args_kwargs\<close>: every
  entry receives the same argument, in order, and the first exception ends the
  comprehension.
\<close>

fun run_loop :: "action list \<Rightarrow> pyval \<Rightarrow> heap \<Rightarrow> pyval result" where
  "run_loop [] arg h = Inr (arg, h)"
| "run_loop (f # fs) arg h =
     (case f arg h of Inl e \<Rightarrow> Inl e | Inr (arg', h') \<Rightarrow> run_loop fs arg' h')"

fun run_each :: "('k \<times> action) list \<Rightarrow> pyval \<Rightarrow> heap \<Rightarrow> ('k \<times> pyval) list result" where
  "run_each [] arg h = Inr ([], h)"
| "run_each ((k, f) # kfs) arg h =
     (case f arg h of
        Inl e \<Rightarrow> Inl e
      | Inr (r, h') \<Rightarrow>
          (case run_each kfs arg h' of
             Inl e \<Rightarrow> Inl e
           | Inr (rs, h'') \<Rightarrow> Inr ((k, r) # rs, h'')))"

definition run_list :: "action list \<Rightarrow> pyval \<Rightarrow> heap \<Rightarrow> pyval list result" where
  "run_list fs arg h =
     (case run_each (map (Pair ()) fs) arg h of
        Inl e \<Rightarrow> Inl e
      | Inr (rs, h') \<Rightarrow> Inr (map snd rs, h'))"

text \<open>
  \<^verbatim>\<open>BaseArgInfoStep.process\<close> for each step class, \<^verbatim>\<open>ArgInfo.process_steps\<close>,
  \<^verbatim>\<open>PipelinedPostproc.forward\<close> and \<^verbatim>\<open>CallArgs.build_args_kwargs\<close>. A
  \<^verbatim>\<open>PostprocArgInfoStep\<close> calls the interceptor with the argument as its one positional
  input. \<^verbatim>\<open>forward\<close> returns the cached result when the context of the interceptor has
  one under its fqn; otherwise it rebuilds the arguments from \<^verbatim>\<open>input[0]\<close> (an
  \<^verbatim>\<open>IndexError\<close> without a positional input), runs the wrapped module and caches the
  result in the context.
\<close>

primrec process :: "step \<Rightarrow> pyval \<Rightarrow> heap \<Rightarrow> pyval result"
and process_elem :: "elem \<Rightarrow> pyval \<Rightarrow> heap \<Rightarrow> pyval result"
and process_steps :: "arginfo \<Rightarrow> pyval \<Rightarrow> heap \<Rightarrow> pyval result"
and PipelinedPostproc_forward :: "postproc \<Rightarrow> pyval list \<Rightarrow> heap \<Rightarrow> pyval result"
and build_args_kwargs ::
  "callargs \<Rightarrow> pyval \<Rightarrow> heap \<Rightarrow> (pyval list \<times> (string \<times> pyval) list) result"
where
  "process NoopArgInfoStep = (\<lambda>arg h. Inr (arg, h))"
| "process (GetAttrArgInfoStep attr_name) =
     (\<lambda>arg h. case py_getattr arg attr_name of Inl e \<Rightarrow> Inl e | Inr v \<Rightarrow> Inr (v, h))"
| "process (GetItemArgInfoStep item_index) =
     (\<lambda>arg h. case py_getitem arg item_index of Inl e \<Rightarrow> Inl e | Inr v \<Rightarrow> Inr (v, h))"
| "process (PostprocArgInfoStep pp) = (\<lambda>arg h. PipelinedPostproc_forward pp [arg] h)"
| "process (ScalarArgInfoStep v) = (\<lambda>arg h. Inr (v, h))"
| "process (ListArgInfoStep vs) =
     (\<lambda>arg h. case run_list (map process_elem vs) arg h of
                 Inl e \<Rightarrow> Inl e
               | Inr (rs, h') \<Rightarrow> Inr (VList rs, h'))"
| "process (DictArgInfoStep kvs) =
     (\<lambda>arg h. case run_each (map (map_prod id process_elem) kvs) arg h of
                 Inl e \<Rightarrow> Inl e
               | Inr (rs, h') \<Rightarrow> Inr (VDict (map (map_prod KStr id) rs), h'))"
| "process_elem (Plain v) = (\<lambda>arg h. Inr (v, h))"
| "process_elem (Nested a) = process_steps a"
| "process_steps (ArgInfo steps) =
     (\<lambda>arg h. if steps = [] then Inr (VNone, h) else run_loop (map process steps) arg h)"
| "PipelinedPostproc_forward (PipelinedPostproc i m fqn cargs) =
     (\<lambda>input h.
        case map_of (postproc_fwd_results (ctx_store h (pp_context h i))) fqn of
          Some res \<Rightarrow> Inr (res, h)
        | None \<Rightarrow>
            (case input of
               [] \<Rightarrow> Inl IndexError
             | input0 # _ \<Rightarrow>
                 (case build_args_kwargs cargs input0 h of
                    Inl e \<Rightarrow> Inl e
                  | Inr ((args, kwargs), h') \<Rightarrow>
                      (case mod_call m args kwargs of
                         Inl e \<Rightarrow> Inl e
                       | Inr res \<Rightarrow>
                           Inr (res,
                                h'\<lparr>ctx_store := (ctx_store h')
                                     (pp_context h' i :=
                                        (ctx_store h' (pp_context h' i))
                                          \<lparr>postproc_fwd_results :=
                                             AList.update fqn res
                                               (postproc_fwd_results
                                                  (ctx_store h' (pp_context h' i)))\<rparr>),
                                   exec_log := exec_log h' @ [(fqn, mod_id m)]\<rparr>)))))"
| "build_args_kwargs (CallArgs as kas) =
     (\<lambda>initial_input h.
        case run_list (map process_steps as) initial_input h of
          Inl e \<Rightarrow> Inl e
        | Inr (args, h') \<Rightarrow>
            (case run_each (map (map_prod id process_steps) kas) initial_input h' of
               Inl e \<Rightarrow> Inl e
             | Inr (kwargs, h'') \<Rightarrow> Inr ((args, kwargs), h'')))"

section \<open>The intercepting forwards\<close>

text \<open>
  \<^verbatim>\<open>PipelinedForward.__call__\<close>. The positional and keyword inputs are not read. The
  first parameter is \<^verbatim>\<open>ShardedModule.compute_and_output_dist\<close>, by the identity of the
  module. Waiting on the request and the stream calls (\<^verbatim>\<open>wait_stream\<close>,
  \<^verbatim>\<open>record_stream\<close>) order device work and are taken not to raise.
\<close>

definition is_multistreamable :: "dist_input \<Rightarrow> bool" where
  "is_multistreamable d = (case d of Multistreamable _ \<Rightarrow> True | NotStreamable _ \<Rightarrow> False)"

definition PipelinedForward_call ::
  "(nat \<Rightarrow> nat \<Rightarrow> dist_input \<Rightarrow> 'r) \<Rightarrow> base_forward \<Rightarrow> heap \<Rightarrow> 'r result" where
  "PipelinedForward_call compute_and_output_dist self h =
     (let c = fwd_context self; ctx = ctx_store h c in
      if \<not> dict_contains (fwd_name self) (input_dist_tensors_requests ctx)
      then Inl (AssertionError InvalidPipelinedForwardUsage)
      else
        (case dict_pop (fwd_name self) (input_dist_tensors_requests ctx) of
           Inl e \<Rightarrow> Inl e
         | Inr (request, requests') \<Rightarrow>
             (case request of
                NotAnAwaitable _ \<Rightarrow> Inl (AssertionError RequestNotAwaitable)
              | Awaitable data \<Rightarrow>
                  (case dict_pop (fwd_name self) (module_contexts ctx) of
                     Inl e \<Rightarrow> Inl e
                   | Inr (mctx, module_contexts') \<Rightarrow>
                       if fwd_stream self \<noteq> None \<and> \<not> is_multistreamable data
                       then Inl (AssertionError NotMultistreamable)
                       else
                         Inr (compute_and_output_dist (fwd_module self) mctx data,
                              h\<lparr>ctx_store := (ctx_store h)
                                   (c := ctx\<lparr>input_dist_tensors_requests := requests',
                                              module_contexts := module_contexts'\<rparr>)\<rparr>)))))"

text \<open>\<^verbatim>\<open>PrefetchPipelinedForward.__call__\<close>: the same on the post-prefetch maps, which
  hold the data itself.\<close>

definition PrefetchPipelinedForward_call ::
  "(nat \<Rightarrow> nat \<Rightarrow> dist_input \<Rightarrow> 'r) \<Rightarrow> base_forward \<Rightarrow> heap \<Rightarrow> 'r result" where
  "PrefetchPipelinedForward_call compute_and_output_dist self h =
     (let c = fwd_context self; ctx = ctx_store h c in
      if \<not> dict_contains (fwd_name self) (module_input_post_prefetch ctx)
      then Inl (AssertionError InvalidPrefetchPipelinedForwardUsage)
      else
        (case dict_pop (fwd_name self) (module_input_post_prefetch ctx) of
           Inl e \<Rightarrow> Inl e
         | Inr (data, inputs') \<Rightarrow>
             (case dict_pop (fwd_name self) (module_contexts_post_prefetch ctx) of
                Inl e \<Rightarrow> Inl e
              | Inr (mctx, module_contexts') \<Rightarrow>
                  if fwd_stream self \<noteq> None \<and> \<not> is_multistreamable data
                  then Inl (AssertionError NotMultistreamable)
                  else
                    Inr (compute_and_output_dist (fwd_module self) mctx data,
                         h\<lparr>ctx_store := (ctx_store h)
                              (c := ctx\<lparr>module_input_post_prefetch := inputs',
                                         module_contexts_post_prefetch := module_contexts'\<rparr>)\<rparr>))))"

section \<open>The graph rewriter\<close>

text \<open>
  A node of the traced graph, as \<^verbatim>\<open>_rewrite_model\<close> reads it: \<^verbatim>\<open>op\<close>, \<^verbatim>\<open>target\<close>,
  \<^verbatim>\<open>args\<close> and \<^verbatim>\<open>kwargs\<close>. The loop only counts the arguments; what they are is left
  to \<^verbatim>\<open>NodeArgsHelper.get_node_args\<close>, which is a parameter here: any function of the
  helper's state and the node that returns the \<^verbatim>\<open>CallArgs\<close>, the number of arguments
  found and the helper's new state. The helper never assigns a \<^verbatim>\<open>forward\<close>, so its
  state is apart from the heap. The tracer is a collaborator: its graph is an input.
\<close>

record 'a node =
  node_op :: string
  node_target :: string
  node_args :: "'a list"
  node_kwargs :: "(string \<times> 'a) list"

datatype log_record =
    ZeroInputWarning string
  | WillBePipelinedInfo string
  | WillNotBePipelinedWarning string
  | NotPipelinedSummaryWarning "string list"

record 'h rewrite_state =
  rw_heap :: heap
  rw_args_helper :: 'h
  rw_pipelined_forwards :: "module list"
  rw_original_forwards :: "callable list"
  rw_non_pipelined_sharded_modules :: "string list"
  rw_log :: "log_record list"

text \<open>The collection of the sharded modules by name, at the head of
  \<^verbatim>\<open>_rewrite_model\<close>.\<close>

definition collect_sharded_modules :: "module \<Rightarrow> (string \<times> module) list" where
  "collect_sharded_modules m =
     fold (\<lambda>(name, x) sharded_modules.
             if mod_class x = ShardedModule then AList.update name x sharded_modules
             else sharded_modules)
          (named_modules m []) []"

text \<open>
  The body of the loop over \<^verbatim>\<open>graph.nodes\<close>. \<open>pipelined_forward\<close> is the class of
  forward to construct, \<open>context\<close> the address of the context handed to it.
\<close>

definition rewrite_node ::
  "forward_class \<Rightarrow> nat \<Rightarrow> nat option \<Rightarrow> ('h \<Rightarrow> 'a node \<Rightarrow> (callargs \<times> nat) \<times> 'h) \<Rightarrow>
   (string \<times> module) list \<Rightarrow> 'a node \<Rightarrow> 'h rewrite_state \<Rightarrow> 'h rewrite_state" where
  "rewrite_node pipelined_forward context dist_stream get_node_args sharded_modules node st =
     (if node_op node \<noteq> ''call_module'' \<or> \<not> dict_contains (node_target node) sharded_modules
      then st
      else
        let total_num_args = length (node_args node) + length (node_kwargs node) in
        if total_num_args = 0
        then st\<lparr>rw_log := rw_log st @ [ZeroInputWarning (node_target node)]\<rparr>
        else
          (case (get_node_args (rw_args_helper st) node, map_of sharded_modules (node_target node)) of
             (_, None) \<Rightarrow> st
           | (((arg_info_list, num_found), helper'), Some child) \<Rightarrow>
                   if num_found = total_num_args
                   then
                     st\<lparr>rw_args_helper := helper',
                        rw_log := rw_log st @ [WillBePipelinedInfo (node_target node)],
                        rw_original_forwards :=
                          rw_original_forwards st @ [module_forward (rw_heap st) (mod_id child)],
                        rw_heap := (rw_heap st)
                          \<lparr>module_forward := (module_forward (rw_heap st))
                             (mod_id child :=
                                InterceptingForward
                                  \<lparr>fwd_class = pipelined_forward,
                                   fwd_name = node_target node,
                                   fwd_args = arg_info_list,
                                   fwd_module = mod_id child,
                                   fwd_context = context,
                                   fwd_stream = dist_stream\<rparr>)\<rparr>,
                        rw_pipelined_forwards := rw_pipelined_forwards st @ [child]\<rparr>
                   else
                     st\<lparr>rw_args_helper := helper',
                        rw_log := rw_log st @ [WillNotBePipelinedWarning (node_target node)],
                        rw_non_pipelined_sharded_modules :=
                          rw_non_pipelined_sharded_modules st @ [node_target node]\<rparr>))"

text \<open>The loop over \<^verbatim>\<open>graph.nodes\<close>, and the state it starts from: no module
  pipelined, nothing saved, nothing reported.\<close>

definition rewrite_loop ::
  "forward_class \<Rightarrow> nat \<Rightarrow> nat option \<Rightarrow> ('h \<Rightarrow> 'a node \<Rightarrow> (callargs \<times> nat) \<times> 'h) \<Rightarrow>
   (string \<times> module) list \<Rightarrow> 'a node list \<Rightarrow> 'h rewrite_state \<Rightarrow> 'h rewrite_state" where
  "rewrite_loop pipelined_forward context dist_stream get_node_args sharded_modules graph_nodes st =
     fold (rewrite_node pipelined_forward context dist_stream get_node_args sharded_modules)
       graph_nodes st"

definition rewrite_start :: "heap \<Rightarrow> 'h \<Rightarrow> 'h rewrite_state" where
  "rewrite_start h args_helper =
     \<lparr>rw_heap = h, rw_args_helper = args_helper, rw_pipelined_forwards = [],
      rw_original_forwards = [], rw_non_pipelined_sharded_modules = [], rw_log = []\<rparr>"

text \<open>
  \<^verbatim>\<open>_rewrite_model\<close>: the sharded modules of the underlying model, the loop over the
  nodes, and the summary warning. The result is the final state; its lists are the
  first, third and fifth components of the tuple the source returns. The returned
  model and the list of interceptors come from the helper and the optional
  \<^verbatim>\<open>torch.jit.script\<close> pass, which touch none of these lists.
\<close>

definition rewrite_model ::
  "model \<Rightarrow> nat \<Rightarrow> nat option \<Rightarrow> forward_class \<Rightarrow>
   ('h \<Rightarrow> 'a node \<Rightarrow> (callargs \<times> nat) \<times> 'h) \<Rightarrow> 'h \<Rightarrow> 'a node list \<Rightarrow> heap \<Rightarrow>
   'h rewrite_state" where
  "rewrite_model mdl context dist_stream pipelined_forward get_node_args args_helper graph_nodes h =
     (let sharded_modules = collect_sharded_modules (underlying mdl);
          st = rewrite_loop pipelined_forward context dist_stream get_node_args sharded_modules
                 graph_nodes (rewrite_start h args_helper)
      in if rw_non_pipelined_sharded_modules st \<noteq> []
         then st\<lparr>rw_log := rw_log st @
                   [NotPipelinedSummaryWarning (rw_non_pipelined_sharded_modules st)]\<rparr>
         else st)"

section \<open>Starting the data dist\<close>

text \<open>
  \<^verbatim>\<open>_start_data_dist\<close> and \<^verbatim>\<open>_fuse_input_dist_splits\<close> call into \<^verbatim>\<open>ShardedModule\<close> and the
  splits awaitables of \<^verbatim>\<open>embedding_sharding\<close>, which are not among the sources. What
  they return is a parameter: \<open>create_context_of\<close> is \<^verbatim>\<open>module.create_context()\<close>,
  \<open>input_dist_of\<close> is \<^verbatim>\<open>module.input_dist(module_ctx, *args, **kwargs)\<close> (the splits request
  it returns, or the exception it raises), \<open>splits_pg\<close> is the process group that the loop
  of \<^verbatim>\<open>_fuse_input_dist_splits\<close> finds in a splits request (\<^verbatim>\<open>None\<close> when it finds none),
  and \<open>fused_requests\<close> is what \<^verbatim>\<open>wait()\<close> gives on the
  \<^verbatim>\<open>FusedKJTListSplitsAwaitable\<close> built from the given requests, module contexts and
  process group.
\<close>

record sharded_api =
  create_context_of :: "module \<Rightarrow> nat"
  input_dist_of :: "module \<Rightarrow> nat \<Rightarrow> pyval list \<Rightarrow> (string \<times> pyval) list \<Rightarrow> error + nat"
  splits_pg :: "nat \<Rightarrow> nat option"
  fused_requests :: "nat list \<Rightarrow> nat list \<Rightarrow> nat option \<Rightarrow> request list"

text \<open>The list \<^verbatim>\<open>[d[name] for name in names]\<close>, with the \<^verbatim>\<open>KeyError\<close> of a missing
  name.\<close>

fun lookup_each :: "(string \<times> 'v) list \<Rightarrow> string list \<Rightarrow> error + 'v list" where
  "lookup_each d [] = Inr []"
| "lookup_each d (name # names) =
     (case map_of d name of
        None \<Rightarrow> Inl KeyError
      | Some v \<Rightarrow>
          (case lookup_each d names of
             Inl e \<Rightarrow> Inl e
           | Inr vs \<Rightarrow> Inr (v # vs)))"

text \<open>
  \<^verbatim>\<open>_fuse_input_dist_splits\<close>. The first loop groups the names of the splits requests by
  process group, groups and names in the order met; the second appends one fused
  awaitable for each group to \<^verbatim>\<open>fused_splits_awaitables\<close>.
\<close>

definition names_per_pg :: "sharded_api \<Rightarrow> (string \<times> nat) list \<Rightarrow> (nat option \<times> string list) list" where
  "names_per_pg api requests =
     fold (\<lambda>(name, request) groups.
             let pg = splits_pg api request
             in AList.update pg
                  ((case map_of groups pg of None \<Rightarrow> [] | Some names \<Rightarrow> names) @ [name]) groups)
          requests []"

fun fuse_groups ::
  "sharded_api \<Rightarrow> (nat option \<times> string list) list \<Rightarrow> pipeline_context \<Rightarrow>
   error + pipeline_context" where
  "fuse_groups api [] ctx = Inr ctx"
| "fuse_groups api ((pg, names) # groups) ctx =
     (case lookup_each (input_dist_splits_requests ctx) names of
        Inl e \<Rightarrow> Inl e
      | Inr requests \<Rightarrow>
          (case lookup_each (if version ctx = 0 then module_contexts_next_batch ctx
                             else module_contexts ctx) names of
             Inl e \<Rightarrow> Inl e
           | Inr ctxs \<Rightarrow>
               fuse_groups api groups
                 (ctx\<lparr>fused_splits_awaitables :=
                        fused_splits_awaitables ctx
                          @ [(names, fused_requests api requests ctxs pg)]\<rparr>)))"

definition fuse_input_dist_splits :: "sharded_api \<Rightarrow> nat \<Rightarrow> heap \<Rightarrow> error + heap" where
  "fuse_input_dist_splits api context h =
     (case fuse_groups api (names_per_pg api (input_dist_splits_requests (ctx_store h context)))
             (ctx_store h context) of
        Inl e \<Rightarrow> Inl e
      | Inr ctx \<Rightarrow> Inr (h\<lparr>ctx_store := (ctx_store h)(context := ctx)\<rparr>))"

text \<open>
  \<^verbatim>\<open>_start_data_dist\<close>. The loop over the pipelined modules asserts that the forward is
  an intercepting one, rebuilds the arguments from the batch (which runs the
  interceptors among them), stores the new module context under the name of the
  forward, in \<^verbatim>\<open>module_contexts_next_batch\<close> for a context of version 0 and in
  \<^verbatim>\<open>module_contexts\<close> otherwise, and stores the splits request of the input dist. The
  function clears three maps of a context of version 0 first and fuses the splits
  last. Its call is recorded in the trace.
\<close>

fun start_data_dist_modules ::
  "sharded_api \<Rightarrow> module list \<Rightarrow> pyval \<Rightarrow> nat \<Rightarrow> heap \<Rightarrow> error + heap" where
  "start_data_dist_modules api [] batch context h = Inr h"
| "start_data_dist_modules api (m # ms) batch context h =
     (case module_forward h (mod_id m) of
        InterceptingForward forward \<Rightarrow>
          (case build_args_kwargs (fwd_args forward) batch h of
             Inl e \<Rightarrow> Inl e
           | Inr ((args, kwargs), h1) \<Rightarrow>
               (case input_dist_of api m (create_context_of api m) args kwargs of
                  Inl e \<Rightarrow> Inl e
                | Inr request \<Rightarrow>
                    start_data_dist_modules api ms batch context
                      (h1\<lparr>ctx_store := (ctx_store h1)
                            (context :=
                               (if version (ctx_store h1 context) = 0
                                then (ctx_store h1 context)
                                  \<lparr>module_contexts_next_batch :=
                                     AList.update (fwd_name forward) (create_context_of api m)
                                       (module_contexts_next_batch (ctx_store h1 context)),
                                   input_dist_splits_requests :=
                                     AList.update (fwd_name forward) request
                                       (input_dist_splits_requests (ctx_store h1 context))\<rparr>
                                else (ctx_store h1 context)
                                  \<lparr>module_contexts :=
                                     AList.update (fwd_name forward) (create_context_of api m)
                                       (module_contexts (ctx_store h1 context)),
                                   input_dist_splits_requests :=
                                     AList.update (fwd_name forward) request
                                       (input_dist_splits_requests (ctx_store h1 context))\<rparr>))\<rparr>)))
      | _ \<Rightarrow> Inl (AssertionError ForwardNotPipelined))"

definition start_data_dist ::
  "sharded_api \<Rightarrow> module list \<Rightarrow> pyval \<Rightarrow> nat \<Rightarrow> heap \<Rightarrow> error + heap" where
  "start_data_dist api pipelined_mods batch context h =
     (case start_data_dist_modules api pipelined_mods batch context
             (if version (ctx_store h context) = 0
              then h\<lparr>ctx_store := (ctx_store h)
                       (context := (ctx_store h context)
                          \<lparr>input_dist_splits_requests := [],
                           module_contexts_next_batch := [],
                           fused_splits_awaitables := []\<rparr>),
                     trace := trace h @ [StartDataDist context]\<rparr>
              else h\<lparr>trace := trace h @ [StartDataDist context]\<rparr>) of
        Inl e \<Rightarrow> Inl e
      | Inr h' \<Rightarrow> fuse_input_dist_splits api context h')"

section \<open>The sparse data dist utility\<close>

text \<open>
  The attributes of \<^verbatim>\<open>SparseDataDistUtil\<close>. \<open>contexts\<close> is the deque \<^verbatim>\<open>_contexts\<close>, of
  addresses into the heap, oldest first. \<open>pipelined_modules\<close> are the sharded modules
  whose forward was replaced, \<open>fwd_hook\<close> the handle of the registered hook.
\<close>

record sdd =
  sdd_model :: model
  data_dist_stream :: nat
  prefetch_stream :: "nat option"
  next_index :: int
  contexts :: "nat list"
  initialized :: bool
  pipelined_modules :: "module list"
  pipelined_postprocs :: "postproc list"
  fwd_hook :: "nat option"
  original_forwards :: "callable list"
  original_kjt_dist_forwards :: "callable list"
  exhausting_mode :: bool

definition TRAIN_CONTEXT_VERSION :: int where
  "TRAIN_CONTEXT_VERSION = 1"

definition WITH_CONTEXT_ASSERTIONS :: bool where
  "WITH_CONTEXT_ASSERTIONS = False"

definition with_prefetch :: "sdd \<Rightarrow> bool" where
  "with_prefetch self = (prefetch_stream self \<noteq> None)"

definition is_reattaching :: "sdd \<Rightarrow> bool" where
  "is_reattaching self = (length (contexts self) > 0)"

definition should_assert_context_invariants :: "sdd \<Rightarrow> pipeline_context \<Rightarrow> bool" where
  "should_assert_context_invariants self ctx =
     (WITH_CONTEXT_ASSERTIONS \<and> initialized self \<and> \<not> exhausting_mode self \<and>
      (case index ctx of None \<Rightarrow> False | Some i \<Rightarrow> i \<ge> 0))"

definition have_pipelined_modules :: "sdd \<Rightarrow> bool" where
  "have_pipelined_modules self = (length (pipelined_modules self) > 0)"

text \<open>\<^verbatim>\<open>_pipelined_modules_fqns\<close>: the \<^verbatim>\<open>_name\<close> of each pipelined module's forward, which
  only an intercepting forward has.\<close>

fun pipelined_modules_fqns :: "module list \<Rightarrow> heap \<Rightarrow> error + string list" where
  "pipelined_modules_fqns [] h = Inr []"
| "pipelined_modules_fqns (m # ms) h =
     (case module_forward h (mod_id m) of
        InterceptingForward f \<Rightarrow>
          (case pipelined_modules_fqns ms h of
             Inl e \<Rightarrow> Inl e
           | Inr names \<Rightarrow> Inr (fwd_name f # names))
      | _ \<Rightarrow> Inl AttributeError)"

text \<open>\<^verbatim>\<open>_create_context\<close>: a new context object of the class that the prefetch
  configuration asks for, with the given index, the current version and empty maps, at
  the next free address.\<close>

definition new_context :: "bool \<Rightarrow> int \<Rightarrow> pipeline_context" where
  "new_context prefetch idx =
     \<lparr>index = Some idx, version = TRAIN_CONTEXT_VERSION, ctx_is_prefetch = prefetch,
      input_dist_splits_requests = [], input_dist_tensors_requests = [],
      module_contexts = [], module_contexts_next_batch = [],
      fused_splits_awaitables = [], postproc_fwd_results = [],
      module_input_post_prefetch = [], module_contexts_post_prefetch = []\<rparr>"

definition create_context :: "sdd \<Rightarrow> int \<Rightarrow> heap \<Rightarrow> nat \<times> heap" where
  "create_context self idx h =
     (next_ctx h,
      h\<lparr>ctx_store := (ctx_store h)(next_ctx h := new_context (with_prefetch self) idx),
         next_ctx := Suc (next_ctx h)\<rparr>)"

definition add_context :: "sdd \<Rightarrow> heap \<Rightarrow> sdd \<times> heap" where
  "add_context self h =
     (case create_context self (next_index self) h of
        (c, h') \<Rightarrow>
          (self\<lparr>contexts := contexts self @ [c], next_index := next_index self + 1\<rparr>, h'))"

definition assert_contexts_count :: "sdd \<Rightarrow> error + unit" where
  "assert_contexts_count self =
     (if \<not> WITH_CONTEXT_ASSERTIONS then Inr ()
      else
        let contexts_len = length (contexts self);
            expected = (if with_prefetch self then 3 else 2)
        in if contexts_len = expected then Inr ()
           else Inl (AssertionError (ContextsCount expected contexts_len)))"

definition current_context :: "sdd \<Rightarrow> error + nat" where
  "current_context self = list_index (contexts self) 0"

text \<open>The four key-set assertions (\<^verbatim>\<open>_assert_input_dist_tensors\<close> and its siblings)
  compare the keys of one map of the context with the expected names.\<close>

definition assert_keys :: "(string \<times> 'v) list \<Rightarrow> string list \<Rightarrow> error + unit" where
  "assert_keys d expected_fqns =
     (if set (map fst d) = set expected_fqns then Inr ()
      else Inl (AssertionError ContextKeysMismatch))"

definition context_for_model_forward :: "sdd \<Rightarrow> heap \<Rightarrow> error + nat" where
  "context_for_model_forward self h =
     (case current_context self of
        Inl e \<Rightarrow> Inl e
      | Inr c \<Rightarrow>
          if should_assert_context_invariants self (ctx_store h c)
          then
            (case pipelined_modules_fqns (pipelined_modules self) h of
               Inl e \<Rightarrow> Inl e
             | Inr target_fqns \<Rightarrow>
                 if with_prefetch self
                 then
                   (case assert_keys (module_input_post_prefetch (ctx_store h c)) target_fqns of
                      Inl e \<Rightarrow> Inl e
                    | Inr _ \<Rightarrow>
                        (case assert_keys (module_contexts_post_prefetch (ctx_store h c))
                                target_fqns of
                           Inl e \<Rightarrow> Inl e
                         | Inr _ \<Rightarrow> Inr c))
                 else
                   (case assert_keys (input_dist_tensors_requests (ctx_store h c)) target_fqns of
                      Inl e \<Rightarrow> Inl e
                    | Inr _ \<Rightarrow>
                        (case assert_keys (module_contexts (ctx_store h c)) target_fqns of
                           Inl e \<Rightarrow> Inl e
                         | Inr _ \<Rightarrow> Inr c)))
          else Inr c)"

text \<open>\<^verbatim>\<open>_set_module_context\<close>: \<^verbatim>\<open>set_context\<close> on the forward of every pipelined module
  (an \<^verbatim>\<open>AttributeError\<close> on a forward that is not an intercepting one), then on every
  pipelined postproc.\<close>

fun set_forward_contexts :: "module list \<Rightarrow> nat \<Rightarrow> heap \<Rightarrow> error + heap" where
  "set_forward_contexts [] c h = Inr h"
| "set_forward_contexts (m # ms) c h =
     (case module_forward h (mod_id m) of
        InterceptingForward f \<Rightarrow>
          set_forward_contexts ms c
            (h\<lparr>module_forward := (module_forward h)
                 (mod_id m := InterceptingForward (f\<lparr>fwd_context := c\<rparr>))\<rparr>)
      | _ \<Rightarrow> Inl AttributeError)"

fun set_postproc_contexts :: "postproc list \<Rightarrow> nat \<Rightarrow> heap \<Rightarrow> heap" where
  "set_postproc_contexts [] c h = h"
| "set_postproc_contexts (p # ps) c h =
     set_postproc_contexts ps c (h\<lparr>pp_context := (pp_context h)(pp_id p := c)\<rparr>)"

definition set_module_context :: "sdd \<Rightarrow> nat \<Rightarrow> heap \<Rightarrow> error + heap" where
  "set_module_context self c h =
     (case set_forward_contexts (pipelined_modules self) c h of
        Inl e \<Rightarrow> Inl e
      | Inr h' \<Rightarrow> Inr (set_postproc_contexts (pipelined_postprocs self) c h'))"

text \<open>\<^verbatim>\<open>_advance_context\<close>. \<^verbatim>\<open>popleft\<close> on an empty deque raises \<^verbatim>\<open>IndexError\<close>.\<close>

definition advance_context :: "sdd \<Rightarrow> heap \<Rightarrow> sdd result" where
  "advance_context self h =
     (case assert_contexts_count self of
        Inl e \<Rightarrow> Inl e
      | Inr _ \<Rightarrow>
          (case contexts self of
             [] \<Rightarrow> Inl IndexError
           | oldest # rest \<Rightarrow>
               (case add_context (self\<lparr>contexts := rest\<rparr>) (h\<lparr>trace := trace h @ [AdvanceContext oldest (next_ctx h)]\<rparr>) of
                  (self', h') \<Rightarrow>
                    (case context_for_model_forward self' h' of
                       Inl e \<Rightarrow> Inl e
                     | Inr c \<Rightarrow>
                         (case set_module_context self' c h' of
                            Inl e \<Rightarrow> Inl e
                          | Inr h'' \<Rightarrow> Inr (self', h''))))))"

text \<open>\<open>n\<close> calls of \<^verbatim>\<open>_advance_context\<close> in a row.\<close>

fun advance_context_times :: "nat \<Rightarrow> sdd \<Rightarrow> heap \<Rightarrow> sdd result" where
  "advance_context_times 0 self h = Inr (self, h)"
| "advance_context_times (Suc n) self h =
     (case advance_context self h of
        Inl e \<Rightarrow> Inl e
      | Inr (self', h') \<Rightarrow> advance_context_times n self' h')"

text \<open>
  Step 0 of \<^verbatim>\<open>_initialize_or_reattach\<close>, up to \<^verbatim>\<open>_assert_contexts_count\<close>: when
  reattaching the contexts are kept and the current one is used for the rewrite;
  otherwise the throwaway contexts \<open>-2\<close> (with prefetch) and \<open>-1\<close> and the first actual
  context are added. The result is the context for the rewrite. The remaining steps of
  the method (the rewrite of the model, the first input dist and the registration of
  the hook) do not touch \<^verbatim>\<open>_contexts\<close> or \<^verbatim>\<open>_next_index\<close>.
\<close>

definition initialize_or_reattach_contexts :: "sdd \<Rightarrow> heap \<Rightarrow> (nat \<times> sdd) result" where
  "initialize_or_reattach_contexts self h =
     (if is_reattaching self
      then
        (case current_context self of
           Inl e \<Rightarrow> Inl e
         | Inr c \<Rightarrow>
             (case assert_contexts_count self of
                Inl e \<Rightarrow> Inl e
              | Inr _ \<Rightarrow> Inr ((c, self), h)))
      else
        (case (if with_prefetch self
               then (case create_context self (- 2) h of
                       (c, h') \<Rightarrow> (self\<lparr>contexts := contexts self @ [c]\<rparr>, h'))
               else (self, h)) of
           (self1, h1) \<Rightarrow>
             (case create_context self1 (- 1) h1 of
                (c, h2) \<Rightarrow>
                  (case add_context (self1\<lparr>contexts := contexts self1 @ [c]\<rparr>) h2 of
                     (self3, h3) \<Rightarrow>
                       (case list_index (contexts self3) (- 1) of
                          Inl e \<Rightarrow> Inl e
                        | Inr context_for_rewrite \<Rightarrow>
                            (case assert_contexts_count self3 of
                               Inl e \<Rightarrow> Inl e
                             | Inr _ \<Rightarrow> Inr ((context_for_rewrite, self3), h3)))))))"

text \<open>\<^verbatim>\<open>_start_dist_context\<close> and \<^verbatim>\<open>_wait_dist_context\<close>: the context that
  \<^verbatim>\<open>start_sparse_data_dist\<close> and \<^verbatim>\<open>wait_sparse_data_dist\<close> work on.\<close>

definition start_dist_context :: "sdd \<Rightarrow> error + nat" where
  "start_dist_context self =
     (if with_prefetch self then list_index (contexts self) 2
      else list_index (contexts self) 1)"

definition wait_dist_context :: "sdd \<Rightarrow> heap \<Rightarrow> error + nat" where
  "wait_dist_context self h =
     (case start_dist_context self of
        Inl e \<Rightarrow> Inl e
      | Inr c \<Rightarrow>
          if should_assert_context_invariants self (ctx_store h c)
             \<and> have_pipelined_modules self
             \<and> \<not> length (fused_splits_awaitables (ctx_store h c)) > 0
          then Inl (AssertionError FusedSplitsAwaitablesEmpty)
          else Inr c)"

text \<open>\<^verbatim>\<open>wait_sparse_data_dist\<close>: every request that a fused awaitable yields is stored
  under its name, then the split requests and the fused awaitables are cleared.\<close>

definition wait_sparse_data_dist :: "sdd \<Rightarrow> heap \<Rightarrow> error + heap" where
  "wait_sparse_data_dist self h =
     (case wait_dist_context self h of
        Inl e \<Rightarrow> Inl e
      | Inr c \<Rightarrow>
          let ctx = ctx_store h c in
          Inr (h\<lparr>ctx_store := (ctx_store h)
                   (c := ctx\<lparr>input_dist_tensors_requests :=
                               fold (\<lambda>(name, request). AList.update name request)
                                 (concat (map (\<lambda>(names, awaitable). zip names awaitable)
                                            (fused_splits_awaitables ctx)))
                                 (input_dist_tensors_requests ctx),
                             input_dist_splits_requests := [],
                             fused_splits_awaitables := []\<rparr>),
                 trace := trace h @ [WaitSparseDataDist c]\<rparr>))"

text \<open>The post-forward hook that \<^verbatim>\<open>_initialize_or_reattach\<close> registers, and
  \<^verbatim>\<open>wait_sdd_fill_callback\<close>.\<close>

definition forward_hook :: "sdd \<Rightarrow> heap \<Rightarrow> sdd result" where
  "forward_hook self h =
     (case wait_sparse_data_dist self h of
        Inl e \<Rightarrow> Inl e
      | Inr h' \<Rightarrow> advance_context self h')"

definition wait_sdd_fill_callback :: "sdd \<Rightarrow> heap \<Rightarrow> sdd result" where
  "wait_sdd_fill_callback self h =
     (case wait_sparse_data_dist self h of
        Inl e \<Rightarrow> Inl e
      | Inr h' \<Rightarrow> advance_context self h')"

text \<open>
  \<^verbatim>\<open>use_context_for_postprocs\<close>: the body runs with the context of every listed
  interceptor set to \<open>next_batch_context\<close>, and the contexts saved before are set again
  after it. An exception of the body passes through the \<^verbatim>\<open>yield\<close> and nothing is
  restored.
\<close>

definition use_context_for_postprocs ::
  "postproc list \<Rightarrow> nat \<Rightarrow> (heap \<Rightarrow> error + heap) \<Rightarrow> heap \<Rightarrow> error + heap" where
  "use_context_for_postprocs postprocs next_batch_context body h =
     (let original_contexts = map (\<lambda>p. pp_context h (pp_id p)) postprocs
      in case body (set_postproc_contexts postprocs next_batch_context h) of
           Inl e \<Rightarrow> Inl e
         | Inr h' \<Rightarrow>
             Inr (fold (\<lambda>(postproc_mod, context) h.
                          h\<lparr>pp_context := (pp_context h)(pp_id postproc_mod := context)\<rparr>)
                    (zip postprocs original_contexts) h'))"

text \<open>
  \<^verbatim>\<open>start_sparse_data_dist\<close>. A utility that is not initialized calls
  \<^verbatim>\<open>_initialize_or_reattach\<close> first, whose step 0 is \<open>initialize_or_reattach_contexts\<close>
  above and whose other steps trace and rewrite the model and register the hook; the
  method is a parameter here, any function of the batch, the utility and the heap.
  Then \<^verbatim>\<open>_start_data_dist\<close> runs on the context that \<^verbatim>\<open>_start_dist_context\<close> names, with
  the interceptors set to that context. The batch is returned as it is.
\<close>

definition start_sparse_data_dist ::
  "sharded_api \<Rightarrow> (pyval \<Rightarrow> sdd \<Rightarrow> heap \<Rightarrow> sdd result) \<Rightarrow> pyval \<Rightarrow> sdd \<Rightarrow> heap \<Rightarrow>
   (pyval \<times> sdd) result" where
  "start_sparse_data_dist api initialize_or_reattach batch self h =
     (case (if \<not> initialized self then initialize_or_reattach batch self h
            else Inr (self, h)) of
        Inl e \<Rightarrow> Inl e
      | Inr (self1, h1) \<Rightarrow>
          (case start_dist_context self1 of
             Inl e \<Rightarrow> Inl e
           | Inr ctx \<Rightarrow>
               (case use_context_for_postprocs (pipelined_postprocs self1) ctx
                       (start_data_dist api (pipelined_modules self1) batch ctx) h1 of
                  Inl e \<Rightarrow> Inl e
                | Inr h2 \<Rightarrow> Inr ((batch, self1), h2))))"

text \<open>
  \<^verbatim>\<open>_pipeline_detach_model\<close>. The first loop restores the forward of each pipelined
  module and collects the \<^verbatim>\<open>_dist\<close> of every input dist of every module under it; the
  count is asserted against the saved forwards, which the second loop restores; the
  third loop is \<^verbatim>\<open>setattr(model, postproc_mod.fqn, postproc_mod.postproc_module)\<close> on the
  underlying model.
\<close>

definition kjt_dists_of :: "module \<Rightarrow> nat list" where
  "kjt_dists_of m =
     concat (map (\<lambda>(name, child_module).
                    case mod_input_dists child_module of
                      None \<Rightarrow> []
                    | Some input_dists \<Rightarrow>
                        concat (map (\<lambda>d. case input_dist_dist d of None \<Rightarrow> [] | Some k \<Rightarrow> [k])
                                  input_dists))
               (named_modules m []))"

definition pipeline_detach_model ::
  "model \<Rightarrow> module list \<Rightarrow> callable list \<Rightarrow> callable list \<Rightarrow> postproc list \<Rightarrow> heap \<Rightarrow>
   model result" where
  "pipeline_detach_model mdl pipelined_mods original_fwds original_kjt_dist_fwds postprocs h =
     (let h1 = fold (\<lambda>(m, original_fwd) h.
                       h\<lparr>module_forward := (module_forward h)(mod_id m := original_fwd)\<rparr>)
                 (zip pipelined_mods original_fwds) h;
          kjt_dists = concat (map (\<lambda>(m, original_fwd). kjt_dists_of m)
                                (zip pipelined_mods original_fwds))
      in if length kjt_dists \<noteq> length original_kjt_dist_fwds
         then Inl (AssertionError
                     (KjtDistCountMismatch (length kjt_dists) (length original_kjt_dist_fwds)))
         else
           let h2 = fold (\<lambda>(kjt_dist, original_kjt_dist_fwd) h.
                            h\<lparr>dist_forward := (dist_forward h)(kjt_dist := original_kjt_dist_fwd)\<rparr>)
                      (zip kjt_dists original_kjt_dist_fwds) h1;
               restore = (\<lambda>m. fold (\<lambda>postproc_mod m.
                                       setattr_module m (pp_fqn postproc_mod)
                                         (postproc_module postproc_mod))
                                 postprocs m)
           in Inr (case mdl of
                     Bare m \<Rightarrow> Bare (restore m)
                   | DistributedModelParallel m \<Rightarrow> DistributedModelParallel (restore m),
                   h2))"

text \<open>\<^verbatim>\<open>SparseDataDistUtil.detach\<close>. Removing the hook takes its handle out of the hooks
  of the model.\<close>

definition detach :: "sdd \<Rightarrow> heap \<Rightarrow> sdd result" where
  "detach self h =
     (if initialized self
      then
        (case fwd_hook self of
           None \<Rightarrow> Inl (AssertionError FwdHookIsNone)
         | Some handle \<Rightarrow>
             (case pipeline_detach_model (sdd_model self) (pipelined_modules self)
                     (original_forwards self) (original_kjt_dist_forwards self)
                     (pipelined_postprocs self)
                     (h\<lparr>forward_hooks := removeAll handle (forward_hooks h)\<rparr>) of
                Inl e \<Rightarrow> Inl e
              | Inr (mdl, h') \<Rightarrow> Inr (self\<lparr>sdd_model := mdl, initialized := False\<rparr>, h')))
      else Inr (self\<lparr>initialized := False\<rparr>, h))"

section \<open>The session-level precision metric\<close>

text \<open>
  Modelled from the spec: \<^verbatim>\<open>RecComputeMode\<close>, \<^verbatim>\<open>RecTaskInfo\<close>, \<^verbatim>\<open>SessionMetricDef\<close> and the
  constructor of the base class \<^verbatim>\<open>RecMetric\<close>, whose files are not among the sources.
  The compute modes are the three that \<^verbatim>\<open>precision_session.py\<close> names; a task and a
  session definition have the fields it reads. The base constructor is a parameter of
  \<open>PrecisionSessionMetric_init\<close>, which hands it the arguments it received.
\<close>

datatype RecComputeMode =
    FUSED_TASKS_COMPUTATION
  | UNFUSED_TASKS_COMPUTATION
  | FUSED_TASKS_AND_STATES_COMPUTATION

record SessionMetricDef =
  session_var_name :: string
  top_threshold :: "int option"
  run_ranking_of_labels :: bool

record RecTaskInfo =
  task_name :: string
  session_metric_def :: "SessionMetricDef option"

record metric_args =
  world_size :: int
  my_rank :: int
  batch_size :: int
  tasks :: "RecTaskInfo list"
  compute_mode :: RecComputeMode
  window_size :: int
  fused_update_limit :: int

text \<open>The loop over the tasks in \<^verbatim>\<open>PrecisionSessionMetric.__init__\<close>.\<close>

fun check_tasks :: "RecTaskInfo list \<Rightarrow> error + unit" where
  "check_tasks [] = Inr ()"
| "check_tasks (task # rest) =
     (case session_metric_def task of
        None \<Rightarrow> Inl (RecMetricException ''Please, specify the session metric definition'')
      | Some d \<Rightarrow>
          (case top_threshold d of
             None \<Rightarrow> Inl (RecMetricException ''Please, specify the top threshold'')
           | Some _ \<Rightarrow> check_tasks rest))"

definition PrecisionSessionMetric_init ::
  "(metric_args \<Rightarrow> error + 'm) \<Rightarrow> metric_args \<Rightarrow> error + 'm" where
  "PrecisionSessionMetric_init RecMetric_init a =
     (if compute_mode a \<in> set [FUSED_TASKS_COMPUTATION, FUSED_TASKS_AND_STATES_COMPUTATION]
      then Inl (RecMetricException
                  ''Fused computation is not supported for precision session-level metrics'')
      else if fused_update_limit a > 0
      then Inl (RecMetricException
                  ''Fused update is not supported for precision session-level metrics'')
      else
        (case check_tasks (tasks a) of
           Inl e \<Rightarrow> Inl e
         | Inr _ \<Rightarrow> RecMetric_init a))"

section \<open>The data loading thread\<close>

text \<open>
  \<^verbatim>\<open>DataLoadingThread\<close> shares four attributes between its threads: \<^verbatim>\<open>_stop\<close>, the two
  events and \<^verbatim>\<open>_buffered\<close>. Each statement of \<^verbatim>\<open>run\<close>, \<^verbatim>\<open>get_next_batch\<close> and \<^verbatim>\<open>stop\<close> that
  reads or writes one of them, or calls a method of an event, is one atomic step (the
  interpreter lock makes each of them atomic); a thread is the position of its next
  such statement. The positions of \<^verbatim>\<open>run\<close> follow its loop: the test of the
  \<^verbatim>\<open>while\<close>, the wait for the buffer-empty event, the test of \<^verbatim>\<open>_stop\<close>, \<^verbatim>\<open>next\<close> on the
  iterator, then either \<^verbatim>\<open>_stop = True\<close> and the final \<^verbatim>\<open>set\<close> of the buffer-filled event,
  or the assignment of the copied batch to \<^verbatim>\<open>_buffered\<close>, the \<^verbatim>\<open>clear\<close> of buffer-empty and
  the \<^verbatim>\<open>set\<close> of buffer-filled. Those of \<^verbatim>\<open>get_next_batch\<close>: not in a call, the wait for
  buffer-filled, the read of \<^verbatim>\<open>_buffered\<close>, then \<^verbatim>\<open>_buffered = None\<close>, the \<^verbatim>\<open>clear\<close> and the
  \<^verbatim>\<open>set\<close>, with the batch it holds. Those of \<^verbatim>\<open>stop\<close>: its three statements.
\<close>

datatype 'b run_pc =
    RunWhile
  | RunWaitEmpty
  | RunIfStop
  | RunNext
  | RunStopIteration
  | RunSetFilledReturn
  | RunAssignBuffered 'b
  | RunClearEmpty
  | RunSetFilled
  | RunReturned

datatype 'b get_pc =
    GetNotCalled
  | GetWaitFilled
  | GetReadBuffered
  | GetAssignNone 'b
  | GetClearFilled 'b
  | GetSetEmpty 'b

datatype stop_pc = StopNotCalled | StopSetFilled | StopSetEmpty

text \<open>
  The state: the shared attributes, the rest of the iterator, the three positions, and
  the batches that calls of \<^verbatim>\<open>get_next_batch\<close> have returned so far (a record of the
  run, no attribute of the source).
\<close>

record 'b loading =
  stop_flag :: bool
  buffer_empty_event :: bool
  buffer_filled_event :: bool
  buffered :: "'b option"
  dataloader_iter :: "'b list"
  run_at :: "'b run_pc"
  get_at :: "'b get_pc"
  stop_at :: stop_pc
  returned :: "'b list"

text \<open>After \<^verbatim>\<open>__init__\<close> and \<^verbatim>\<open>start\<close>: buffer-empty is set, the slot is \<^verbatim>\<open>None\<close>.\<close>

definition loading_init :: "'b list \<Rightarrow> 'b loading" where
  "loading_init batches =
     \<lparr>stop_flag = False, buffer_empty_event = True, buffer_filled_event = False,
      buffered = None, dataloader_iter = batches, run_at = RunWhile, get_at = GetNotCalled,
      stop_at = StopNotCalled, returned = []\<rparr>"

text \<open>The next step of \<^verbatim>\<open>run\<close>. A wait on an event that is not set leaves the state as
  it is.\<close>

definition run_step :: "'b loading \<Rightarrow> 'b loading" where
  "run_step s =
     (case run_at s of
        RunWhile \<Rightarrow> if stop_flag s then s\<lparr>run_at := RunReturned\<rparr> else s\<lparr>run_at := RunWaitEmpty\<rparr>
      | RunWaitEmpty \<Rightarrow> if buffer_empty_event s then s\<lparr>run_at := RunIfStop\<rparr> else s
      | RunIfStop \<Rightarrow>
          if stop_flag s then s\<lparr>run_at := RunSetFilledReturn\<rparr> else s\<lparr>run_at := RunNext\<rparr>
      | RunNext \<Rightarrow>
          (case dataloader_iter s of
             [] \<Rightarrow> s\<lparr>run_at := RunStopIteration\<rparr>
           | batch # rest \<Rightarrow> s\<lparr>dataloader_iter := rest, run_at := RunAssignBuffered batch\<rparr>)
      | RunStopIteration \<Rightarrow> s\<lparr>stop_flag := True, run_at := RunSetFilledReturn\<rparr>
      | RunSetFilledReturn \<Rightarrow> s\<lparr>buffer_filled_event := True, run_at := RunReturned\<rparr>
      | RunAssignBuffered batch \<Rightarrow> s\<lparr>buffered := Some batch, run_at := RunClearEmpty\<rparr>
      | RunClearEmpty \<Rightarrow> s\<lparr>buffer_empty_event := False, run_at := RunSetFilled\<rparr>
      | RunSetFilled \<Rightarrow> s\<lparr>buffer_filled_event := True, run_at := RunWhile\<rparr>
      | RunReturned \<Rightarrow> s)"

text \<open>The next step of the consumer: it calls \<^verbatim>\<open>get_next_batch\<close>, or takes the next step
  of the call it is in. A call that finds \<^verbatim>\<open>None\<close> in the slot returns \<^verbatim>\<open>None\<close> (or raises
  \<^verbatim>\<open>StopIteration\<close>) and changes nothing.\<close>

definition get_next_batch_step :: "'b loading \<Rightarrow> 'b loading" where
  "get_next_batch_step s =
     (case get_at s of
        GetNotCalled \<Rightarrow> s\<lparr>get_at := GetWaitFilled\<rparr>
      | GetWaitFilled \<Rightarrow> if buffer_filled_event s then s\<lparr>get_at := GetReadBuffered\<rparr> else s
      | GetReadBuffered \<Rightarrow>
          (case buffered s of
             None \<Rightarrow> s\<lparr>get_at := GetNotCalled\<rparr>
           | Some batch \<Rightarrow> s\<lparr>get_at := GetAssignNone batch\<rparr>)
      | GetAssignNone batch \<Rightarrow> s\<lparr>buffered := None, get_at := GetClearFilled batch\<rparr>
      | GetClearFilled batch \<Rightarrow> s\<lparr>buffer_filled_event := False, get_at := GetSetEmpty batch\<rparr>
      | GetSetEmpty batch \<Rightarrow>
          s\<lparr>buffer_empty_event := True, get_at := GetNotCalled,
            returned := returned s @ [batch]\<rparr>)"

text \<open>The next step of \<^verbatim>\<open>stop\<close>, which any thread may call at any time.\<close>

definition stop_step :: "'b loading \<Rightarrow> 'b loading" where
  "stop_step s =
     (case stop_at s of
        StopNotCalled \<Rightarrow> s\<lparr>stop_flag := True, stop_at := StopSetFilled\<rparr>
      | StopSetFilled \<Rightarrow> s\<lparr>buffer_filled_event := True, stop_at := StopSetEmpty\<rparr>
      | StopSetEmpty \<Rightarrow> s\<lparr>buffer_empty_event := True, stop_at := StopNotCalled\<rparr>)"

text \<open>A schedule names the thread that takes each step; \<open>interleave\<close> runs it.\<close>

datatype thread = Producer | Consumer | Stopper

definition thread_step :: "thread \<Rightarrow> 'b loading \<Rightarrow> 'b loading" where
  "thread_step t s =
     (case t of Producer \<Rightarrow> run_step s | Consumer \<Rightarrow> get_next_batch_step s
      | Stopper \<Rightarrow> stop_step s)"

fun interleave :: "thread list \<Rightarrow> 'b loading \<Rightarrow> 'b loading" where
  "interleave [] s = s"
| "interleave (t # ts) s = interleave ts (thread_step t s)"

text \<open>The batches that are loaded and not yet returned: the one the consumer has taken
  out of the slot, the one in the slot, the one the producer is about to assign.\<close>

definition in_flight :: "'b loading \<Rightarrow> 'b list" where
  "in_flight s =
     (case get_at s of GetClearFilled b \<Rightarrow> [b] | GetSetEmpty b \<Rightarrow> [b] | _ \<Rightarrow> [])
     @ (case buffered s of Some b \<Rightarrow> [b] | None \<Rightarrow> [])
     @ (case run_at s of RunAssignBuffered b \<Rightarrow> [b] | _ \<Rightarrow> [])"

text \<open>
  The invariant of the hand-off. While \<^verbatim>\<open>_stop\<close> is unset the threads are in one of six
  phases: the slot is free for the producer; the producer has filled it and not yet
  cleared buffer-empty; it has cleared buffer-empty and not yet set buffer-filled; the
  slot is handed to the consumer; the consumer has emptied it and not yet cleared
  buffer-filled; it has cleared buffer-filled and not yet set buffer-empty. At all
  times, \<^verbatim>\<open>stop\<close> in progress means \<^verbatim>\<open>_stop\<close> is set, the producer between its wait and its
  \<^verbatim>\<open>clear\<close> finds buffer-empty set, and before its assignment the slot empty; the consumer
  between its wait and its \<^verbatim>\<open>clear\<close> finds buffer-filled set, and before its assignment
  the slot holding the batch it read; and no batch is lost, repeated or reordered.
\<close>

definition running_phase :: "'b loading \<Rightarrow> bool" where
  "running_phase s =
     ((buffer_empty_event s \<and> \<not> buffer_filled_event s \<and> buffered s = None
         \<and> (run_at s \<in> {RunWhile, RunWaitEmpty, RunIfStop, RunNext, RunStopIteration}
             \<or> (\<exists>b. run_at s = RunAssignBuffered b))
         \<and> get_at s \<in> {GetNotCalled, GetWaitFilled})
      \<or> (buffer_empty_event s \<and> \<not> buffer_filled_event s \<and> buffered s \<noteq> None
         \<and> run_at s = RunClearEmpty \<and> get_at s \<in> {GetNotCalled, GetWaitFilled})
      \<or> (\<not> buffer_empty_event s \<and> \<not> buffer_filled_event s \<and> buffered s \<noteq> None
         \<and> run_at s = RunSetFilled \<and> get_at s \<in> {GetNotCalled, GetWaitFilled})
      \<or> (\<not> buffer_empty_event s \<and> buffer_filled_event s \<and> buffered s \<noteq> None
         \<and> run_at s \<in> {RunWhile, RunWaitEmpty}
         \<and> (get_at s \<in> {GetNotCalled, GetWaitFilled, GetReadBuffered}
             \<or> (\<exists>b. get_at s = GetAssignNone b)))
      \<or> (\<not> buffer_empty_event s \<and> buffer_filled_event s \<and> buffered s = None
         \<and> run_at s \<in> {RunWhile, RunWaitEmpty} \<and> (\<exists>b. get_at s = GetClearFilled b))
      \<or> (\<not> buffer_empty_event s \<and> \<not> buffer_filled_event s \<and> buffered s = None
         \<and> run_at s \<in> {RunWhile, RunWaitEmpty} \<and> (\<exists>b. get_at s = GetSetEmpty b)))"

definition handoff_invariant :: "'b list \<Rightarrow> 'b loading \<Rightarrow> bool" where
  "handoff_invariant batches s =
     ((stop_at s \<noteq> StopNotCalled \<longrightarrow> stop_flag s)
      \<and> (\<not> stop_flag s \<longrightarrow> running_phase s)
      \<and> (run_at s \<in> {RunIfStop, RunNext, RunStopIteration, RunClearEmpty}
            \<or> (\<exists>b. run_at s = RunAssignBuffered b) \<longrightarrow> buffer_empty_event s)
      \<and> (run_at s = RunNext \<or> (\<exists>b. run_at s = RunAssignBuffered b) \<longrightarrow> buffered s = None)
      \<and> (get_at s = GetReadBuffered \<longrightarrow> buffer_filled_event s)
      \<and> (\<forall>b. get_at s = GetAssignNone b \<longrightarrow> buffered s = Some b \<and> buffer_filled_event s)
      \<and> (\<forall>b. get_at s = GetClearFilled b \<longrightarrow> buffer_filled_event s)
      \<and> returned s @ in_flight s @ dataloader_iter s = batches)"

text \<open>A schedule in which the producer loads the first of two batches and hands it
  over, and the consumer takes it; its prefix of four steps brings the producer to its
  assignment.\<close>

definition example_schedule :: "thread list" where
  "example_schedule =
     [Producer, Producer, Producer, Producer, Producer, Producer, Producer,
      Consumer, Consumer, Consumer, Consumer, Consumer, Consumer]"

section \<open>Notions used in the statements\<close>

text \<open>
  The spec's words for \<^verbatim>\<open>process_steps\<close>: the steps applied in list order, each on the
  output of the one before, as \<open>step3(step2(step1(input)))\<close>; an exception ends the
  chain. It is a left fold, to be compared with the loop of the source.
\<close>

definition apply_in_order :: "step list \<Rightarrow> pyval \<Rightarrow> heap \<Rightarrow> pyval result" where
  "apply_in_order steps arg h =
     foldl (\<lambda>acc step. case acc of Inl e \<Rightarrow> Inl e | Inr (v, h') \<Rightarrow> process step v h')
       (Inr (arg, h)) steps"

text \<open>The value of a result without its heap, and a value or exception as the result
  that leaves a heap as it is.\<close>

definition value_of :: "'a result \<Rightarrow> error + 'a" where
  "value_of r = (case r of Inl e \<Rightarrow> Inl e | Inr (v, h) \<Rightarrow> Inr v)"

definition in_heap :: "error + 'a \<Rightarrow> heap \<Rightarrow> 'a result" where
  "in_heap r h = (case r of Inl e \<Rightarrow> Inl e | Inr v \<Rightarrow> Inr (v, h))"

text \<open>An action is stateless when its value does not depend on the heap and it leaves
  the heap unchanged.\<close>

definition stateless :: "('x \<Rightarrow> heap \<Rightarrow> 'a result) \<Rightarrow> bool" where
  "stateless f = (\<forall>x h h0. f x h = in_heap (value_of (f x h0)) h)"

text \<open>The pure steps: every step but the call of an interceptor, at any depth.\<close>

primrec pure_step :: "step \<Rightarrow> bool"
and pure_elem :: "elem \<Rightarrow> bool"
and pure_arginfo :: "arginfo \<Rightarrow> bool"
where
  "pure_step NoopArgInfoStep = True"
| "pure_step (GetAttrArgInfoStep attr_name) = True"
| "pure_step (GetItemArgInfoStep item_index) = True"
| "pure_step (PostprocArgInfoStep pp) = False"
| "pure_step (ScalarArgInfoStep v) = True"
| "pure_step (ListArgInfoStep vs) = list_all id (map pure_elem vs)"
| "pure_step (DictArgInfoStep kvs) = list_all snd (map (map_prod id pure_elem) kvs)"
| "pure_elem (Plain v) = True"
| "pure_elem (Nested a) = pure_arginfo a"
| "pure_arginfo (ArgInfo steps) = list_all id (map pure_step steps)"

definition pure_callargs :: "callargs \<Rightarrow> bool" where
  "pure_callargs c =
     (case c of CallArgs as kas \<Rightarrow> list_all pure_arginfo as \<and> list_all pure_arginfo (map snd kas))"

text \<open>Concrete objects for the worked instances: a context with empty maps, a heap
  whose every address holds it, a module that returns the list of its positional
  arguments, and an interceptor \<open>pp\<close> around it that reads the attribute \<open>x\<close> of the
  batch.\<close>

definition empty_context :: pipeline_context where
  "empty_context =
     \<lparr>index = Some 0, version = 1, ctx_is_prefetch = False,
      input_dist_splits_requests = [], input_dist_tensors_requests = [],
      module_contexts = [], module_contexts_next_batch = [],
      fused_splits_awaitables = [], postproc_fwd_results = [],
      module_input_post_prefetch = [], module_contexts_post_prefetch = []\<rparr>"

definition empty_heap :: heap where
  "empty_heap =
     \<lparr>ctx_store = (\<lambda>a. empty_context), next_ctx = 0, pp_context = (\<lambda>i. 0),
      module_forward = (\<lambda>i. OriginalForward i), dist_forward = (\<lambda>i. OriginalForward i),
      forward_hooks = [], exec_log = [], trace = []\<rparr>"

definition list_module :: module where
  "list_module = Module 5 PlainModule (\<lambda>args kwargs. Inr (VList args)) None []"

definition example_postproc :: postproc where
  "example_postproc =
     PipelinedPostproc 0 list_module ''pp'' (CallArgs [ArgInfo [GetAttrArgInfoStep ''x'']] [])"

definition example_batch :: pyval where
  "example_batch = VObj [(''x'', VList [VInt 7, VInt 8]), (''y'', VNone)]"


text \<open>The configurations that the constructor of \<^verbatim>\<open>PrecisionSessionMetric\<close> is said to
  reject: a fused-tasks compute mode, a positive \<^verbatim>\<open>fused_update_limit\<close>, or a task without
  a session definition or without a top threshold.\<close>

definition unsupported_configuration :: "metric_args \<Rightarrow> bool" where
  "unsupported_configuration a =
     (compute_mode a = FUSED_TASKS_COMPUTATION
      \<or> compute_mode a = FUSED_TASKS_AND_STATES_COMPUTATION
      \<or> fused_update_limit a > 0
      \<or> (\<exists>task\<in>set (tasks a).
            session_metric_def task = None
            \<or> (\<exists>d. session_metric_def task = Some d \<and> top_threshold d = None)))"

text \<open>Arguments with one task, whose top threshold is given or missing.\<close>

definition example_task :: "int option \<Rightarrow> RecTaskInfo" where
  "example_task threshold =
     \<lparr>task_name = ''t'',
      session_metric_def =
        Some \<lparr>session_var_name = ''session'', top_threshold = threshold,
              run_ranking_of_labels = False\<rparr>\<rparr>"

definition example_metric_args :: "int option \<Rightarrow> metric_args" where
  "example_metric_args threshold =
     \<lparr>world_size = 1, my_rank = 0, batch_size = 8, tasks = [example_task threshold],
      compute_mode = UNFUSED_TASKS_COMPUTATION, window_size = 100, fused_update_limit = 0\<rparr>"

text \<open>A \<^verbatim>\<open>PipelinedForward\<close> for the module \<open>ebc\<close> with a stream, and a heap whose context
  holds a pending request for \<open>ebc\<close> and the given module contexts.\<close>

definition example_forward :: base_forward where
  "example_forward =
     \<lparr>fwd_class = PipelinedForward, fwd_name = ''ebc'', fwd_args = CallArgs [] [],
      fwd_module = 1, fwd_context = 0, fwd_stream = Some 0\<rparr>"

definition pending_context :: "(string \<times> nat) list \<Rightarrow> pipeline_context" where
  "pending_context mctxs =
     empty_context\<lparr>input_dist_tensors_requests := [(''ebc'', Awaitable (Multistreamable 4))],
                   module_contexts := mctxs\<rparr>"

definition pending_heap :: "(string \<times> nat) list \<Rightarrow> heap" where
  "pending_heap mctxs = empty_heap\<lparr>ctx_store := (\<lambda>a. pending_context mctxs)\<rparr>"

text \<open>Whether a callable is an intercepting forward of the given class.\<close>

definition is_intercepting :: "forward_class \<Rightarrow> callable \<Rightarrow> bool" where
  "is_intercepting cls f =
     (case f of InterceptingForward b \<Rightarrow> fwd_class b = cls | _ \<Rightarrow> False)"

text \<open>A model with the sharded modules \<open>ebc\<close> and \<open>ec\<close>, a graph that calls \<open>ebc\<close> with
  one argument, \<open>ec\<close> with one argument and \<open>ebc\<close> again with none, and a resolver that
  finds the argument of \<open>ebc\<close> and not that of \<open>ec\<close>.\<close>

definition example_ebc :: module where
  "example_ebc = Module 1 ShardedModule (\<lambda>args kwargs. Inr VNone) None []"

definition example_ec :: module where
  "example_ec = Module 2 ShardedModule (\<lambda>args kwargs. Inr VNone) None []"

definition example_model :: model where
  "example_model =
     Bare (Module 0 PlainModule (\<lambda>args kwargs. Inr VNone) None
             [(''ebc'', example_ebc), (''ec'', example_ec)])"

definition example_graph :: "unit node list" where
  "example_graph =
     [\<lparr>node_op = ''call_module'', node_target = ''ebc'', node_args = [()], node_kwargs = []\<rparr>,
      \<lparr>node_op = ''call_module'', node_target = ''ec'', node_args = [()], node_kwargs = []\<rparr>]"

definition zero_input_graph :: "unit node list" where
  "zero_input_graph =
     [\<lparr>node_op = ''call_module'', node_target = ''ebc'', node_args = [], node_kwargs = []\<rparr>]"

definition example_get_node_args :: "unit \<Rightarrow> unit node \<Rightarrow> (callargs \<times> nat) \<times> unit" where
  "example_get_node_args helper node =
     ((CallArgs [] [], if node_target node = ''ebc'' then length (node_args node) else 0), helper)"

text \<open>The forward of every listed module is an intercepting forward; it is one whose
  context is \<open>c\<close>; every listed interceptor has the context \<open>c\<close>.\<close>

definition attached :: "module list \<Rightarrow> heap \<Rightarrow> bool" where
  "attached ms h =
     list_all (\<lambda>m. case module_forward h (mod_id m) of
                      InterceptingForward f \<Rightarrow> True
                    | _ \<Rightarrow> False) ms"

definition forwards_at :: "module list \<Rightarrow> nat \<Rightarrow> heap \<Rightarrow> bool" where
  "forwards_at ms c h =
     list_all (\<lambda>m. case module_forward h (mod_id m) of
                      InterceptingForward f \<Rightarrow> fwd_context f = c
                    | _ \<Rightarrow> False) ms"

definition postprocs_at :: "postproc list \<Rightarrow> nat \<Rightarrow> heap \<Rightarrow> bool" where
  "postprocs_at ps c h = list_all (\<lambda>p. pp_context h (pp_id p) = c) ps"

text \<open>The size of the window that the prefetch configuration asks for.\<close>

definition window_size_of :: "sdd \<Rightarrow> nat" where
  "window_size_of self = (if with_prefetch self then 3 else 2)"

text \<open>A utility without prefetch that is attached to the module \<open>ebc\<close> and the
  interceptor \<open>pp\<close>, with the window of the contexts \<open>0\<close> and \<open>1\<close>, and a heap in which
  \<open>ebc\<close> carries an intercepting forward and the next free address is \<open>2\<close>.\<close>

definition example_sdd :: sdd where
  "example_sdd =
     \<lparr>sdd_model = example_model, data_dist_stream = 0, prefetch_stream = None, next_index = 1,
      contexts = [0, 1], initialized = True, pipelined_modules = [example_ebc],
      pipelined_postprocs = [example_postproc], fwd_hook = Some 0,
      original_forwards = [OriginalForward 1], original_kjt_dist_forwards = [],
      exhausting_mode = False\<rparr>"

definition attached_heap :: heap where
  "attached_heap =
     empty_heap\<lparr>next_ctx := 2,
                module_forward := (module_forward empty_heap)
                  (1 := InterceptingForward example_forward),
                forward_hooks := [0]\<rparr>"

text \<open>
  A model whose postproc module is nested: \<open>sparse\<close> holds the sharded module \<open>ebc\<close>
  (with an input dist that has a \<^verbatim>\<open>_dist\<close> and one that has none) and the module
  \<open>postproc\<close>, whose fqn is \<open>sparse.postproc\<close>. The utility is attached to it: the
  interceptor was swapped in at that path by the attach-time swap, \<open>ebc\<close> carries an
  intercepting forward, the forward of the dist \<open>7\<close> was overridden, and the hook \<open>0\<close>
  is registered.
\<close>

definition nested_postproc_module :: module where
  "nested_postproc_module = Module 3 PlainModule (\<lambda>args kwargs. Inr VNone) None []"

definition nested_wrapper :: module where
  "nested_wrapper =
     Module 4 PipelinedPostprocModule (\<lambda>args kwargs. Inr VNone) None
       [(''_postproc_module'', nested_postproc_module)]"

definition nested_ebc :: module where
  "nested_ebc =
     Module 1 ShardedModule (\<lambda>args kwargs. Inr VNone)
       (Some [InputDist (Some 7), InputDist None]) []"

definition nested_root :: module where
  "nested_root =
     Module 0 PlainModule (\<lambda>args kwargs. Inr VNone) None
       [(''sparse'',
         Module 2 PlainModule (\<lambda>args kwargs. Inr VNone) None
           [(''ebc'', nested_ebc), (''postproc'', nested_postproc_module)])]"

definition nested_sdd :: sdd where
  "nested_sdd =
     \<lparr>sdd_model =
        Bare (swap_postproc_module_recursive nested_root nested_wrapper ''sparse.postproc'' []),
      data_dist_stream = 0, prefetch_stream = None, next_index = 1,
      contexts = [0, 1], initialized = True, pipelined_modules = [nested_ebc],
      pipelined_postprocs =
        [PipelinedPostproc 0 nested_postproc_module ''sparse.postproc''
           (CallArgs [ArgInfo [NoopArgInfoStep]] [])],
      fwd_hook = Some 0,
      original_forwards = [OriginalForward 1],
      original_kjt_dist_forwards = [OriginalForward 7],
      exhausting_mode = False\<rparr>"

definition nested_heap :: heap where
  "nested_heap = attached_heap\<lparr>dist_forward := (dist_forward attached_heap)(7 := KJTAllToAllForward 7)\<rparr>"


text \<open>
  The identities of the modules that the interceptors reached from a step, a
  descriptor, an interceptor or the arguments of a call wrap, at any depth: the modules
  that a reconstruction of the arguments can execute. An interceptor reaches its own
  module first.
\<close>

primrec reached_step :: "step \<Rightarrow> nat list"
and reached_elem :: "elem \<Rightarrow> nat list"
and reached_arginfo :: "arginfo \<Rightarrow> nat list"
and reached_postproc :: "postproc \<Rightarrow> nat list"
and reached_callargs :: "callargs \<Rightarrow> nat list"
where
  "reached_step NoopArgInfoStep = []"
| "reached_step (GetAttrArgInfoStep attr_name) = []"
| "reached_step (GetItemArgInfoStep item_index) = []"
| "reached_step (PostprocArgInfoStep pp) = reached_postproc pp"
| "reached_step (ScalarArgInfoStep v) = []"
| "reached_step (ListArgInfoStep vs) = concat (map reached_elem vs)"
| "reached_step (DictArgInfoStep kvs) = concat (map snd (map (map_prod id reached_elem) kvs))"
| "reached_elem (Plain v) = []"
| "reached_elem (Nested a) = reached_arginfo a"
| "reached_arginfo (ArgInfo steps) = concat (map reached_step steps)"
| "reached_postproc (PipelinedPostproc i m fqn cargs) = mod_id m # reached_callargs cargs"
| "reached_callargs (CallArgs as kas) =
     concat (map reached_arginfo as) @ concat (map snd (map (map_prod id reached_arginfo) kas))"


text \<open>
  A heap \<open>h'\<close> differs from \<open>h\<close> by executions of modules in \<open>S\<close> only: the execution log
  has grown by entries of modules in \<open>S\<close>, and but for the contexts in the store every
  other part of the heap is the same.
\<close>

definition only_ran :: "nat set \<Rightarrow> heap \<Rightarrow> heap \<Rightarrow> bool" where
  "only_ran S h h' =
     (next_ctx h' = next_ctx h \<and> pp_context h' = pp_context h \<and>
      module_forward h' = module_forward h \<and> dist_forward h' = dist_forward h \<and>
      forward_hooks h' = forward_hooks h \<and> trace h' = trace h \<and>
      (\<exists>entries. exec_log h' = exec_log h @ entries \<and> snd ` set entries \<subseteq> S))"



text \<open>
  The calls that a staged pipeline makes on the utility: \<^verbatim>\<open>start_sparse_data_dist\<close> as
  the runnable of its stage, \<^verbatim>\<open>wait_sdd_fill_callback\<close> as the fill callback of that
  stage, and the post-forward hook after each forward of the model. \<open>run_calls\<close> makes
  a list of them in order, up to the first exception.
\<close>

datatype sdd_call = CallStartSparseDataDist pyval | CallForwardHook | CallWaitSddFillCallback

fun call_sdd ::
  "sharded_api \<Rightarrow> (pyval \<Rightarrow> sdd \<Rightarrow> heap \<Rightarrow> sdd result) \<Rightarrow> sdd_call \<Rightarrow> sdd \<Rightarrow> heap \<Rightarrow> sdd result" where
  "call_sdd api initialize_or_reattach (CallStartSparseDataDist batch) self h =
     (case start_sparse_data_dist api initialize_or_reattach batch self h of
        Inl e \<Rightarrow> Inl e
      | Inr ((batch', self'), h') \<Rightarrow> Inr (self', h'))"
| "call_sdd api initialize_or_reattach CallForwardHook self h = forward_hook self h"
| "call_sdd api initialize_or_reattach CallWaitSddFillCallback self h =
     wait_sdd_fill_callback self h"

fun run_calls ::
  "sharded_api \<Rightarrow> (pyval \<Rightarrow> sdd \<Rightarrow> heap \<Rightarrow> sdd result) \<Rightarrow> sdd_call list \<Rightarrow> sdd \<Rightarrow> heap \<Rightarrow>
   sdd result" where
  "run_calls api initialize_or_reattach [] self h = Inr (self, h)"
| "run_calls api initialize_or_reattach (c # cs) self h =
     (case call_sdd api initialize_or_reattach c self h of
        Inl e \<Rightarrow> Inl e
      | Inr (self', h') \<Rightarrow> run_calls api initialize_or_reattach cs self' h')"

text \<open>
  The order of the spec on a stretch of the trace, for the context \<open>c\<close> that the starts
  address at its beginning: every start addresses \<open>c\<close>; an advance comes right after a
  wait on \<open>c\<close> and creates another context, which the starts after it address; no wait
  is without its advance and no advance without its wait.
\<close>

fun wait_advance_start :: "nat \<Rightarrow> event list \<Rightarrow> bool" where
  "wait_advance_start c [] = True"
| "wait_advance_start c (StartDataDist d # es) = (d = c \<and> wait_advance_start c es)"
| "wait_advance_start c (WaitSparseDataDist d # AdvanceContext oldest created # es) =
     (d = c \<and> created \<noteq> c \<and> wait_advance_start created es)"
| "wait_advance_start c es = False"

text \<open>Collaborators for the worked instance: every module context is the identity of the
  module plus ten, every splits request the identity plus twenty, no request has a
  process group, and a fused awaitable yields one awaitable for each of its requests.\<close>

definition example_api :: sharded_api where
  "example_api =
     \<lparr>create_context_of = (\<lambda>m. mod_id m + 10),
      input_dist_of = (\<lambda>m module_ctx args kwargs. Inr (mod_id m + 20)),
      splits_pg = (\<lambda>request. None),
      fused_requests = (\<lambda>requests ctxs pg. map (\<lambda>r. Awaitable (Multistreamable r)) requests)\<rparr>"
chapter \<open>Properties\<close>

section \<open>Argument reconstruction\<close>

lemma run_each_shape:
  "run_each kfs arg h = Inr (rs, h') \<Longrightarrow>
     length rs = length kfs \<and> map fst rs = map fst kfs \<and>
     (\<forall>i<length kfs. \<exists>hi hi'. snd (kfs ! i) arg hi = Inr (snd (rs ! i), hi'))"
proof (induction kfs arbitrary: h rs)
  case Nil
  then show ?case by simp
next
  case (Cons kf kfs)
  obtain k f where kf: "kf = (k, f)" by (cases kf)
  from Cons.prems kf obtain r h1 rs' where
    f: "f arg h = Inr (r, h1)" and rest: "run_each kfs arg h1 = Inr (rs', h')" and
    rs: "rs = (k, r) # rs'"
    by (auto split: sum.splits)
  from Cons.IH[OF rest] have ih: "length rs' = length kfs" "map fst rs' = map fst kfs"
    "\<forall>i<length kfs. \<exists>hi hi'. snd (kfs ! i) arg hi = Inr (snd (rs' ! i), hi')" by auto
  show ?case
  proof (intro conjI allI impI)
    show "length rs = length (kf # kfs)" using ih rs by simp
    show "map fst rs = map fst (kf # kfs)" using ih rs kf by simp
  next
    fix i assume "i < length (kf # kfs)"
    then show "\<exists>hi hi'. snd ((kf # kfs) ! i) arg hi = Inr (snd (rs ! i), hi')"
      using ih(3) f rs kf by (cases i) auto
  qed
qed

lemma run_list_shape:
  "run_list fs arg h = Inr (rs, h') \<Longrightarrow>
     length rs = length fs \<and>
     (\<forall>i<length fs. \<exists>hi hi'. (fs ! i) arg hi = Inr (rs ! i, hi'))"
  unfolding run_list_def
  by (auto split: sum.splits dest!: run_each_shape)

lemma foldl_Inl:
  "foldl (\<lambda>acc f. case acc of Inl e \<Rightarrow> Inl e | Inr (v, h') \<Rightarrow> g f v h') (Inl e) fs = Inl e"
  by (induction fs) simp_all

lemma run_loop_foldl:
  "run_loop (map p ss) arg h =
     foldl (\<lambda>acc s. case acc of Inl e \<Rightarrow> Inl e | Inr (v, h') \<Rightarrow> p s v h') (Inr (arg, h)) ss"
proof (induction ss arbitrary: arg h)
  case Nil
  show ?case by simp
next
  case (Cons s ss)
  show ?case
  proof (cases "p s arg h")
    case (Inl e)
    then show ?thesis by (simp add: foldl_Inl)
  next
    case (Inr vh)
    then show ?thesis using Cons.IH by (cases vh) simp
  qed
qed

lemma run_loop_append:
  "run_loop (fs @ gs) arg h =
     (case run_loop fs arg h of Inl e \<Rightarrow> Inl e | Inr (v, h') \<Rightarrow> run_loop gs v h')"
  by (induction fs arbitrary: arg h) (auto split: sum.splits)

lemma process_steps_in_order:
  "steps \<noteq> [] \<Longrightarrow> process_steps (ArgInfo steps) arg h = apply_in_order steps arg h"
  by (simp add: apply_in_order_def run_loop_foldl)

lemma process_steps_last:
  "process_steps (ArgInfo (ss @ [s])) arg h =
     (if ss = [] then process s arg h
      else case process_steps (ArgInfo ss) arg h of
             Inl e \<Rightarrow> Inl e
           | Inr (v, h') \<Rightarrow> process s v h')"
  by (auto simp: run_loop_append split: sum.splits)

lemma build_args_kwargs_shape:
  assumes "build_args_kwargs (CallArgs as kas) x h = Inr ((args, kwargs), h')"
  shows "length args = length as" and "map fst kwargs = map fst kas"
    and "\<forall>i<length as. \<exists>hi hi'. process_steps (as ! i) x hi = Inr (args ! i, hi')"
    and "\<forall>j<length kas. \<exists>hj hj'. process_steps (snd (kas ! j)) x hj = Inr (snd (kwargs ! j), hj')"
proof -
  from assms obtain h1 where
    a: "run_list (map process_steps as) x h = Inr (args, h1)" and
    k: "run_each (map (map_prod id process_steps) kas) x h1 = Inr (kwargs, h')"
    by (auto split: sum.splits)
  from run_list_shape[OF a] show "length args = length as"
    and "\<forall>i<length as. \<exists>hi hi'. process_steps (as ! i) x hi = Inr (args ! i, hi')"
    by simp_all
  from run_each_shape[OF k] have
    m: "map fst kwargs = map fst (map (map_prod id process_steps) kas)" and
    e: "\<forall>j<length (map (map_prod id process_steps) kas).
          \<exists>hj hj'. snd (map (map_prod id process_steps) kas ! j) x hj
                     = Inr (snd (kwargs ! j), hj')"
    by blast+
  from m show "map fst kwargs = map fst kas" by (simp add: comp_def)
  from e show "\<forall>j<length kas. \<exists>hj hj'. process_steps (snd (kas ! j)) x hj
                 = Inr (snd (kwargs ! j), hj')"
    by simp
qed

lemma statelessD_Inl:
  assumes "stateless f" and "f x h0 = Inl e"
  shows "f x h = Inl e"
proof -
  have "f x h = in_heap (value_of (f x h0)) h"
    using assms(1) unfolding stateless_def by blast
  then show ?thesis using assms(2) by (simp add: in_heap_def value_of_def)
qed

lemma statelessD_Inr:
  assumes "stateless f" and "f x h0 = Inr (v, h1)"
  shows "f x h = Inr (v, h)"
proof -
  have "f x h = in_heap (value_of (f x h0)) h"
    using assms(1) unfolding stateless_def by blast
  then show ?thesis using assms(2) by (simp add: in_heap_def value_of_def)
qed

lemma statelessI:
  assumes "\<And>x h h0 e. f x h0 = Inl e \<Longrightarrow> f x h = Inl e"
    and "\<And>x h h0 v h1. f x h0 = Inr (v, h1) \<Longrightarrow> f x h = Inr (v, h)"
  shows "stateless f"
  unfolding stateless_def
proof (intro allI)
  fix x h h0
  show "f x h = in_heap (value_of (f x h0)) h"
  proof (cases "f x h0")
    case (Inl e)
    with assms(1)[OF Inl, of h] show ?thesis by (simp add: in_heap_def value_of_def)
  next
    case (Inr vh)
    then obtain v h1 where v: "f x h0 = Inr (v, h1)" by (cases vh) simp
    with assms(2)[OF v, of h] show ?thesis by (simp add: in_heap_def value_of_def)
  qed
qed

lemma stateless_run_loop:
  "\<forall>f\<in>set fs. stateless f \<Longrightarrow> stateless (run_loop fs)"
proof (induction fs)
  case Nil
  show ?case by (rule statelessI) simp_all
next
  case (Cons f fs)
  then have f: "stateless f" and fs: "stateless (run_loop fs)" by simp_all
  show ?case
  proof (rule statelessI)
    fix x h h0 e
    assume a: "run_loop (f # fs) x h0 = Inl e"
    show "run_loop (f # fs) x h = Inl e"
    proof (cases "f x h0")
      case (Inl e')
      with a have "e' = e" by simp
      with statelessD_Inl[OF f Inl, of h] show ?thesis by simp
    next
      case (Inr vh)
      then obtain v h1 where v: "f x h0 = Inr (v, h1)" by (cases vh) simp
      with a have "run_loop fs v h1 = Inl e" by simp
      then have "run_loop fs v h = Inl e" by (rule statelessD_Inl[OF fs])
      with statelessD_Inr[OF f v, of h] show ?thesis by simp
    qed
  next
    fix x h h0 r h2
    assume a: "run_loop (f # fs) x h0 = Inr (r, h2)"
    then obtain v h1 where v: "f x h0 = Inr (v, h1)" and r: "run_loop fs v h1 = Inr (r, h2)"
      by (auto split: sum.splits)
    from statelessD_Inr[OF fs r, of h] statelessD_Inr[OF f v, of h]
    show "run_loop (f # fs) x h = Inr (r, h)" by simp
  qed
qed

lemma stateless_run_each:
  "\<forall>kf\<in>set kfs. stateless (snd kf) \<Longrightarrow> stateless (run_each kfs)"
proof (induction kfs)
  case Nil
  show ?case by (rule statelessI) simp_all
next
  case (Cons kf kfs)
  obtain k f where kf: "kf = (k, f)" by (cases kf)
  with Cons have f: "stateless f" and fs: "stateless (run_each kfs)" by simp_all
  show ?case unfolding kf
  proof (rule statelessI)
    fix x h h0 e
    assume a: "run_each ((k, f) # kfs) x h0 = Inl e"
    show "run_each ((k, f) # kfs) x h = Inl e"
    proof (cases "f x h0")
      case (Inl e')
      with a have "e' = e" by simp
      with statelessD_Inl[OF f Inl, of h] show ?thesis by simp
    next
      case (Inr vh)
      then obtain v h1 where v: "f x h0 = Inr (v, h1)" by (cases vh) simp
      with a have "run_each kfs x h1 = Inl e" by (auto split: sum.splits)
      then have "run_each kfs x h = Inl e" by (rule statelessD_Inl[OF fs])
      with statelessD_Inr[OF f v, of h] show ?thesis by simp
    qed
  next
    fix x h h0 rs h2
    assume a: "run_each ((k, f) # kfs) x h0 = Inr (rs, h2)"
    then obtain v h1 rs' where v: "f x h0 = Inr (v, h1)"
      and r: "run_each kfs x h1 = Inr (rs', h2)" and rs: "rs = (k, v) # rs'"
      by (auto split: sum.splits)
    from statelessD_Inr[OF fs r, of h] statelessD_Inr[OF f v, of h] rs
    show "run_each ((k, f) # kfs) x h = Inr (rs, h)" by simp
  qed
qed

lemma stateless_run_list:
  assumes "\<forall>f\<in>set fs. stateless f"
  shows "stateless (run_list fs)"
proof -
  have s: "stateless (run_each (map (Pair ()) fs))"
    by (rule stateless_run_each) (use assms in auto)
  show ?thesis
  proof (rule statelessI)
    fix x h h0 e
    assume "run_list fs x h0 = Inl e"
    then have "run_each (map (Pair ()) fs) x h0 = Inl e"
      by (auto simp: run_list_def split: sum.splits)
    from statelessD_Inl[OF s this, of h] show "run_list fs x h = Inl e"
      by (simp add: run_list_def)
  next
    fix x h h0 rs h1
    assume "run_list fs x h0 = Inr (rs, h1)"
    then obtain rs' where "run_each (map (Pair ()) fs) x h0 = Inr (rs', h1)" "rs = map snd rs'"
      by (auto simp: run_list_def split: sum.splits)
    with statelessD_Inr[OF s this(1), of h] show "run_list fs x h = Inr (rs, h)"
      by (simp add: run_list_def)
  qed
qed

lemma pure_stateless:
  "(pure_step s \<longrightarrow> stateless (process s))"
  "(pure_elem el \<longrightarrow> stateless (process_elem el))"
  "(pure_arginfo a \<longrightarrow> stateless (process_steps a))"
  "True" "True"
proof (induction s and el and a and "p :: postproc" and "c :: callargs")
  case NoopArgInfoStep
  show ?case by (auto intro!: statelessI)
next
  case (GetAttrArgInfoStep x)
  show ?case by (auto intro!: statelessI split: sum.splits)
next
  case (GetItemArgInfoStep x)
  show ?case by (auto intro!: statelessI split: sum.splits)
next
  case (PostprocArgInfoStep x)
  show ?case by simp
next
  case (ScalarArgInfoStep x)
  show ?case by (auto intro!: statelessI)
next
  case (ListArgInfoStep vs)
  show ?case
  proof
    assume "pure_step (ListArgInfoStep vs)"
    with ListArgInfoStep have "\<forall>f\<in>set (map process_elem vs). stateless f"
      by (auto simp: list_all_iff)
    then have s: "stateless (run_list (map process_elem vs))" by (rule stateless_run_list)
    show "stateless (process (ListArgInfoStep vs))"
    proof (rule statelessI)
      fix x h h0 e
      assume "process (ListArgInfoStep vs) x h0 = Inl e"
      then have "run_list (map process_elem vs) x h0 = Inl e" by (auto split: sum.splits)
      from statelessD_Inl[OF s this, of h] show "process (ListArgInfoStep vs) x h = Inl e" by simp
    next
      fix x h h0 v h1
      assume "process (ListArgInfoStep vs) x h0 = Inr (v, h1)"
      then obtain rs where "run_list (map process_elem vs) x h0 = Inr (rs, h1)" "v = VList rs"
        by (auto split: sum.splits)
      with statelessD_Inr[OF s this(1), of h] show "process (ListArgInfoStep vs) x h = Inr (v, h)"
        by simp
    qed
  qed
next
  case (DictArgInfoStep kvs)
  show ?case
  proof
    assume "pure_step (DictArgInfoStep kvs)"
    with DictArgInfoStep have "\<forall>kf\<in>set (map (map_prod id process_elem) kvs). stateless (snd kf)"
      by (fastforce simp: list_all_iff)
    then have s: "stateless (run_each (map (map_prod id process_elem) kvs))"
      by (rule stateless_run_each)
    show "stateless (process (DictArgInfoStep kvs))"
    proof (rule statelessI)
      fix x h h0 e
      assume "process (DictArgInfoStep kvs) x h0 = Inl e"
      then have "run_each (map (map_prod id process_elem) kvs) x h0 = Inl e"
        by (auto split: sum.splits)
      from statelessD_Inl[OF s this, of h] show "process (DictArgInfoStep kvs) x h = Inl e" by (simp add: id_def)
    next
      fix x h h0 v h1
      assume "process (DictArgInfoStep kvs) x h0 = Inr (v, h1)"
      then obtain rs where "run_each (map (map_prod id process_elem) kvs) x h0 = Inr (rs, h1)"
        "v = VDict (map (map_prod KStr id) rs)"
        by (auto split: sum.splits)
      with statelessD_Inr[OF s this(1), of h] show "process (DictArgInfoStep kvs) x h = Inr (v, h)"
        by (simp add: id_def)
    qed
  qed
next
  case (Plain x)
  show ?case by (auto intro!: statelessI)
next
  case (Nested x)
  then show ?case by simp
next
  case (ArgInfo steps)
  show ?case
  proof
    assume "pure_arginfo (ArgInfo steps)"
    with ArgInfo have "\<forall>f\<in>set (map process steps). stateless f"
      by (auto simp: list_all_iff)
    then have s: "stateless (run_loop (map process steps))" by (rule stateless_run_loop)
    show "stateless (process_steps (ArgInfo steps))"
    proof (rule statelessI)
      fix x h h0 e
      assume "process_steps (ArgInfo steps) x h0 = Inl e"
      then have "steps \<noteq> []" "run_loop (map process steps) x h0 = Inl e"
        by (auto split: if_splits)
      with statelessD_Inl[OF s this(2), of h] show "process_steps (ArgInfo steps) x h = Inl e" by simp
    next
      fix x h h0 v h1
      assume a: "process_steps (ArgInfo steps) x h0 = Inr (v, h1)"
      show "process_steps (ArgInfo steps) x h = Inr (v, h)"
      proof (cases "steps = []")
        case True
        with a show ?thesis by simp
      next
        case False
        with a have "run_loop (map process steps) x h0 = Inr (v, h1)" by simp
        from statelessD_Inr[OF s this, of h] False show ?thesis by simp
      qed
    qed
  qed
next
  case (PipelinedPostproc x1 x2 x3 x4)
  show ?case by simp
next
  case (CallArgs x1 x2)
  show ?case by simp
qed

lemma pure_callargs_stateless:
  assumes "pure_callargs (CallArgs as kas)"
  shows "stateless (build_args_kwargs (CallArgs as kas))"
proof -
  from assms have pa: "\<forall>f\<in>set (map process_steps as). stateless f"
    using pure_stateless(3) by (auto simp: pure_callargs_def list_all_iff)
  from assms have pk: "\<forall>kf\<in>set (map (map_prod id process_steps) kas). stateless (snd kf)"
    using pure_stateless(3) by (fastforce simp: pure_callargs_def list_all_iff)
  have sa: "stateless (run_list (map process_steps as))" by (rule stateless_run_list[OF pa])
  have sk: "stateless (run_each (map (map_prod id process_steps) kas))"
    by (rule stateless_run_each[OF pk])
  show ?thesis
  proof (rule statelessI)
    fix x h h0 e
    assume a: "build_args_kwargs (CallArgs as kas) x h0 = Inl e"
    show "build_args_kwargs (CallArgs as kas) x h = Inl e"
    proof (cases "run_list (map process_steps as) x h0")
      case (Inl e')
      with a have "e' = e" by simp
      with statelessD_Inl[OF sa Inl, of h] show ?thesis by simp
    next
      case (Inr vh)
      then obtain args h1 where v: "run_list (map process_steps as) x h0 = Inr (args, h1)"
        by (cases vh) simp
      with a have "run_each (map (map_prod id process_steps) kas) x h1 = Inl e"
        by (auto split: sum.splits)
      from statelessD_Inl[OF sk this, of h] statelessD_Inr[OF sa v, of h]
      show ?thesis by (simp add: id_def)
    qed
  next
    fix x h h0 r h2
    assume a: "build_args_kwargs (CallArgs as kas) x h0 = Inr (r, h2)"
    then obtain args kwargs h1 where
      v: "run_list (map process_steps as) x h0 = Inr (args, h1)" and
      k: "run_each (map (map_prod id process_steps) kas) x h1 = Inr (kwargs, h2)" and
      r: "r = (args, kwargs)"
      by (auto split: sum.splits)
    from statelessD_Inr[OF sk k, of h] statelessD_Inr[OF sa v, of h] r
    show "build_args_kwargs (CallArgs as kas) x h = Inr (r, h)" by (simp add: id_def)
  qed
qed

text \<open>
  Claim C7. For a non-empty step list \<^verbatim>\<open>process_steps\<close> is the chain of the spec: the
  steps applied in list order, each on the output of the one before, and the result is
  the output of the last step on the result of the steps before it. An attribute step is
  \<^verbatim>\<open>getattr\<close>, an item step is indexing, a scalar step gives its constant whatever the
  input, a no-op step gives its input. \<^verbatim>\<open>build_args_kwargs\<close> gives one result for each
  positional and each keyword descriptor, under the same key, and each is the result of
  that descriptor's \<^verbatim>\<open>process_steps\<close> on the same initial input. When all steps are pure
  (no interceptor is called) the result does not depend on the heap, which is left as it
  was: identical inputs give identical results.
\<close>

theorem C7_process_steps_in_order:
  "(steps \<noteq> [] \<longrightarrow> process_steps (ArgInfo steps) arg h = apply_in_order steps arg h)
   \<and> process_steps (ArgInfo (steps @ [s])) arg h =
       (if steps = [] then process s arg h
        else case process_steps (ArgInfo steps) arg h of
               Inl e \<Rightarrow> Inl e
             | Inr (v, h') \<Rightarrow> process s v h')
   \<and> process (GetAttrArgInfoStep attr_name) arg h = in_heap (py_getattr arg attr_name) h
   \<and> process (GetItemArgInfoStep item_index) arg h = in_heap (py_getitem arg item_index) h
   \<and> process (ScalarArgInfoStep c) arg h = Inr (c, h)
   \<and> process NoopArgInfoStep arg h = Inr (arg, h)
   \<and> (build_args_kwargs (CallArgs as kas) x h = Inr ((args, kwargs), h') \<longrightarrow>
        length args = length as \<and> map fst kwargs = map fst kas \<and>
        (\<forall>i<length as. \<exists>hi hi'. process_steps (as ! i) x hi = Inr (args ! i, hi')) \<and>
        (\<forall>j<length kas. \<exists>hj hj'.
            process_steps (snd (kas ! j)) x hj = Inr (snd (kwargs ! j), hj')))
   \<and> (pure_callargs (CallArgs as kas) \<longrightarrow>
        build_args_kwargs (CallArgs as kas) x h =
          in_heap (value_of (build_args_kwargs (CallArgs as kas) x g)) h)"
proof (intro conjI impI)
  assume "steps \<noteq> []"
  then show "process_steps (ArgInfo steps) arg h = apply_in_order steps arg h"
    by (rule process_steps_in_order)
next
  show "process_steps (ArgInfo (steps @ [s])) arg h =
       (if steps = [] then process s arg h
        else case process_steps (ArgInfo steps) arg h of
               Inl e \<Rightarrow> Inl e
             | Inr (v, h') \<Rightarrow> process s v h')"
    by (rule process_steps_last)
next
  show "process (GetAttrArgInfoStep attr_name) arg h = in_heap (py_getattr arg attr_name) h"
    by (simp add: in_heap_def)
next
  show "process (GetItemArgInfoStep item_index) arg h = in_heap (py_getitem arg item_index) h"
    by (simp add: in_heap_def)
next
  show "process (ScalarArgInfoStep c) arg h = Inr (c, h)" by simp
next
  show "process NoopArgInfoStep arg h = Inr (arg, h)" by simp
next
  assume b: "build_args_kwargs (CallArgs as kas) x h = Inr ((args, kwargs), h')"
  from build_args_kwargs_shape[OF b]
  show "length args = length as" and "map fst kwargs = map fst kas"
    and "\<forall>i<length as. \<exists>hi hi'. process_steps (as ! i) x hi = Inr (args ! i, hi')"
    and "\<forall>j<length kas. \<exists>hj hj'.
            process_steps (snd (kas ! j)) x hj = Inr (snd (kwargs ! j), hj')"
    by blast+
next
  assume "pure_callargs (CallArgs as kas)"
  then have "stateless (build_args_kwargs (CallArgs as kas))" by (rule pure_callargs_stateless)
  then show "build_args_kwargs (CallArgs as kas) x h =
          in_heap (value_of (build_args_kwargs (CallArgs as kas) x g)) h"
    unfolding stateless_def by blast
qed

text \<open>The instance: \<open>batch.x[-1]\<close> through the chain, and a positional and a keyword
  argument rebuilt in a heap other than the one the result was computed in.\<close>

theorem C7_witness:
  "apply_in_order [GetAttrArgInfoStep ''x'', GetItemArgInfoStep (KInt (- 1))] example_batch empty_heap
     = Inr (VInt 8, empty_heap)
   \<and> build_args_kwargs
        (CallArgs [ArgInfo [GetAttrArgInfoStep ''x'', GetItemArgInfoStep (KInt 0)]]
                  [(''k'', ArgInfo [GetAttrArgInfoStep ''y''])])
        example_batch (empty_heap\<lparr>exec_log := [(''earlier'', 9)]\<rparr>)
     = Inr (([VInt 7], [(''k'', VNone)]), empty_heap\<lparr>exec_log := [(''earlier'', 9)]\<rparr>)"
proof -
  have ne: "[GetAttrArgInfoStep ''x'', GetItemArgInfoStep (KInt (- 1))] \<noteq> []" by simp
  have pure: "pure_callargs
        (CallArgs [ArgInfo [GetAttrArgInfoStep ''x'', GetItemArgInfoStep (KInt 0)]]
                  [(''k'', ArgInfo [GetAttrArgInfoStep ''y''])])"
    by (simp add: pure_callargs_def)
  have v: "build_args_kwargs
        (CallArgs [ArgInfo [GetAttrArgInfoStep ''x'', GetItemArgInfoStep (KInt 0)]]
                  [(''k'', ArgInfo [GetAttrArgInfoStep ''y''])])
        example_batch empty_heap = Inr (([VInt 7], [(''k'', VNone)]), empty_heap)"
    by (simp add: example_batch_def run_list_def py_getattr_def py_getitem_def list_index_def)
  have p: "process_steps (ArgInfo [GetAttrArgInfoStep ''x'', GetItemArgInfoStep (KInt (- 1))])
             example_batch empty_heap = Inr (VInt 8, empty_heap)"
    by (simp add: example_batch_def py_getattr_def py_getitem_def list_index_def)
  note t1 = C7_process_steps_in_order
    [where steps = "[GetAttrArgInfoStep ''x'', GetItemArgInfoStep (KInt (- 1))]"
       and arg = example_batch and h = empty_heap, THEN conjunct1, rule_format, OF ne]
  note t2 = C7_process_steps_in_order
    [where as = "[ArgInfo [GetAttrArgInfoStep ''x'', GetItemArgInfoStep (KInt 0)]]"
       and kas = "[(''k'', ArgInfo [GetAttrArgInfoStep ''y''])]" and x = example_batch
       and g = empty_heap and h = "empty_heap\<lparr>exec_log := [(''earlier'', 9)]\<rparr>",
     THEN conjunct2, THEN conjunct2, THEN conjunct2, THEN conjunct2, THEN conjunct2,
     THEN conjunct2, THEN conjunct2, rule_format, OF pure]
  from t1 p have 1: "apply_in_order [GetAttrArgInfoStep ''x'', GetItemArgInfoStep (KInt (- 1))]
      example_batch empty_heap = Inr (VInt 8, empty_heap)"
    by (simp only:)
  from t2 have 2: "build_args_kwargs
        (CallArgs [ArgInfo [GetAttrArgInfoStep ''x'', GetItemArgInfoStep (KInt 0)]]
                  [(''k'', ArgInfo [GetAttrArgInfoStep ''y''])])
        example_batch (empty_heap\<lparr>exec_log := [(''earlier'', 9)]\<rparr>)
     = Inr (([VInt 7], [(''k'', VNone)]), empty_heap\<lparr>exec_log := [(''earlier'', 9)]\<rparr>)"
    unfolding v by (simp add: in_heap_def value_of_def)
  from 1 2 show ?thesis by blast
qed

text \<open>
  Claim C10. \<^verbatim>\<open>process_steps\<close> of a descriptor with no steps returns \<^verbatim>\<open>None\<close>, not its
  input; so wherever \<^verbatim>\<open>build_args_kwargs\<close> returns, every positional and every keyword
  argument whose descriptor has no steps is \<^verbatim>\<open>None\<close>.
\<close>

theorem C10_empty_steps_give_None:
  "process_steps (ArgInfo []) arg h = Inr (VNone, h)
   \<and> (build_args_kwargs (CallArgs as kas) x h0 = Inr ((args, kwargs), h') \<longrightarrow>
        (\<forall>i<length as. as ! i = ArgInfo [] \<longrightarrow> args ! i = VNone) \<and>
        (\<forall>j<length kas. snd (kas ! j) = ArgInfo [] \<longrightarrow>
            kwargs ! j = (fst (kas ! j), VNone)))"
proof (intro conjI impI allI)
  show "process_steps (ArgInfo []) arg h = Inr (VNone, h)" by simp
next
  fix i
  assume b: "build_args_kwargs (CallArgs as kas) x h0 = Inr ((args, kwargs), h')"
    and i: "i < length as" and e: "as ! i = ArgInfo []"
  from build_args_kwargs_shape(3)[OF b] i obtain hi hi' where
    "process_steps (as ! i) x hi = Inr (args ! i, hi')" by blast
  with e show "args ! i = VNone" by simp
next
  fix j
  assume b: "build_args_kwargs (CallArgs as kas) x h0 = Inr ((args, kwargs), h')"
    and j: "j < length kas" and e: "snd (kas ! j) = ArgInfo []"
  from build_args_kwargs_shape(4)[OF b] j obtain hj hj' where
    "process_steps (snd (kas ! j)) x hj = Inr (snd (kwargs ! j), hj')" by blast
  with e have s: "snd (kwargs ! j) = VNone" by simp
  from build_args_kwargs_shape(2)[OF b] have m: "map fst kwargs = map fst kas" .
  then have "length kwargs = length kas" by (metis length_map)
  with m j have "fst (kwargs ! j) = fst (kas ! j)" by (metis nth_map)
  with s show "kwargs ! j = (fst (kas ! j), VNone)" by (metis prod.collapse)
qed

text \<open>The instance: the input \<open>3\<close> with an empty descriptor, a no-op descriptor and an
  empty keyword descriptor.\<close>

theorem C10_witness:
  "build_args_kwargs (CallArgs [ArgInfo [], ArgInfo [NoopArgInfoStep]] [(''k'', ArgInfo [])])
     (VInt 3) empty_heap
     = Inr (([VNone, VInt 3], [(''k'', VNone)]), empty_heap)
   \<and> [VNone, VInt 3] ! 0 = VNone \<and> [(''k'', VNone)] ! 0 = (''k'', VNone)"
proof -
  have b: "build_args_kwargs (CallArgs [ArgInfo [], ArgInfo [NoopArgInfoStep]] [(''k'', ArgInfo [])])
     (VInt 3) empty_heap = Inr (([VNone, VInt 3], [(''k'', VNone)]), empty_heap)"
    by (simp add: run_list_def)
  from C10_empty_steps_give_None
    [of VNone empty_heap "[ArgInfo [], ArgInfo [NoopArgInfoStep]]" "[(''k'', ArgInfo [])]"
        "VInt 3" empty_heap "[VNone, VInt 3]" "[(''k'', VNone)]" empty_heap] b
  show ?thesis by simp
qed

lemma only_ran_refl: "only_ran S h h"
  by (simp add: only_ran_def)

lemma only_ran_mono: "only_ran S h h' \<Longrightarrow> S \<subseteq> T \<Longrightarrow> only_ran T h h'"
  unfolding only_ran_def by blast

lemma only_ran_trans:
  assumes "only_ran S a b" and "only_ran S b c"
  shows "only_ran S a c"
proof -
  from assms(1) obtain es where es: "exec_log b = exec_log a @ es" "snd ` set es \<subseteq> S"
    unfolding only_ran_def by blast
  from assms(2) obtain fs where fs: "exec_log c = exec_log b @ fs" "snd ` set fs \<subseteq> S"
    unfolding only_ran_def by blast
  have "exec_log c = exec_log a @ (es @ fs)" "snd ` set (es @ fs) \<subseteq> S"
    using es fs by auto
  then have "\<exists>entries. exec_log c = exec_log a @ entries \<and> snd ` set entries \<subseteq> S"
    by blast
  with assms show ?thesis unfolding only_ran_def by simp
qed

lemma only_ran_run_loop:
  assumes "\<forall>f\<in>set fs. \<forall>x h v h'. f x h = Inr (v, h') \<longrightarrow> only_ran S h h'"
  shows "run_loop fs x h = Inr (v, h') \<Longrightarrow> only_ran S h h'"
  using assms
proof (induction fs arbitrary: x h)
  case Nil
  then show ?case by (simp add: only_ran_refl)
next
  case (Cons f fs)
  from Cons.prems(1) obtain v1 h1 where f: "f x h = Inr (v1, h1)"
    and r: "run_loop fs v1 h1 = Inr (v, h')"
    by (auto split: sum.splits)
  from Cons.prems(2) f have 1: "only_ran S h h1" by simp
  from Cons.prems(2) have "\<forall>f\<in>set fs. \<forall>x h v h'. f x h = Inr (v, h') \<longrightarrow> only_ran S h h'"
    by simp
  from Cons.IH[OF r this] have 2: "only_ran S h1 h'" .
  from 1 2 show ?case by (rule only_ran_trans)
qed

lemma only_ran_run_each:
  assumes "\<forall>kf\<in>set kfs. \<forall>x h v h'. snd kf x h = Inr (v, h') \<longrightarrow> only_ran S h h'"
  shows "run_each kfs x h = Inr (rs, h') \<Longrightarrow> only_ran S h h'"
  using assms
proof (induction kfs arbitrary: h rs)
  case Nil
  then show ?case by (simp add: only_ran_refl)
next
  case (Cons kf kfs)
  obtain k f where kf: "kf = (k, f)" by (cases kf)
  from Cons.prems(1) kf obtain v1 h1 rs' where f: "f x h = Inr (v1, h1)"
    and r: "run_each kfs x h1 = Inr (rs', h')"
    by (auto split: sum.splits)
  from Cons.prems(2) f kf have 1: "only_ran S h h1" by simp
  from Cons.prems(2)
  have "\<forall>kf\<in>set kfs. \<forall>x h v h'. snd kf x h = Inr (v, h') \<longrightarrow> only_ran S h h'"
    by simp
  from Cons.IH[OF r this] have 2: "only_ran S h1 h'" .
  from 1 2 show ?case by (rule only_ran_trans)
qed

lemma only_ran_run_list:
  assumes "\<forall>f\<in>set fs. \<forall>x h v h'. f x h = Inr (v, h') \<longrightarrow> only_ran S h h'"
    and "run_list fs x h = Inr (rs, h')"
  shows "only_ran S h h'"
proof -
  from assms(2) obtain rs' where r: "run_each (map (Pair ()) fs) x h = Inr (rs', h')"
    by (auto simp: run_list_def split: sum.splits)
  from assms(1)
  have "\<forall>kf\<in>set (map (Pair ()) fs). \<forall>x h v h'. snd kf x h = Inr (v, h') \<longrightarrow> only_ran S h h'"
    by simp
  from only_ran_run_each[OF this r] show ?thesis .
qed

lemma reconstruction_only_ran:
  "\<forall>arg h v h'. process s arg h = Inr (v, h') \<longrightarrow> only_ran (set (reached_step s)) h h'"
  "\<forall>arg h v h'. process_elem el arg h = Inr (v, h') \<longrightarrow> only_ran (set (reached_elem el)) h h'"
  "\<forall>arg h v h'. process_steps a arg h = Inr (v, h') \<longrightarrow> only_ran (set (reached_arginfo a)) h h'"
  "\<forall>input h v h'. PipelinedPostproc_forward p input h = Inr (v, h')
      \<longrightarrow> only_ran (set (reached_postproc p)) h h'"
  "\<forall>arg h r h'. build_args_kwargs c arg h = Inr (r, h')
      \<longrightarrow> only_ran (set (reached_callargs c)) h h'"
proof (induction s and el and a and p and c)
  case NoopArgInfoStep
  show ?case by (simp add: only_ran_refl)
next
  case (GetAttrArgInfoStep x)
  show ?case by (auto simp: only_ran_refl split: sum.splits)
next
  case (GetItemArgInfoStep x)
  show ?case by (auto simp: only_ran_refl split: sum.splits)
next
  case (PostprocArgInfoStep x)
  then show ?case by simp
next
  case (ScalarArgInfoStep x)
  show ?case by (simp add: only_ran_refl)
next
  case (ListArgInfoStep vs)
  define S where "S = set (reached_step (ListArgInfoStep vs))"
  have "\<forall>f\<in>set (map process_elem vs). \<forall>x h v h'. f x h = Inr (v, h') \<longrightarrow> only_ran S h h'"
  proof (intro ballI allI impI)
    fix f x h v h'
    assume "f \<in> set (map process_elem vs)" and r: "f x h = Inr (v, h')"
    then obtain el where el: "el \<in> set vs" "f = process_elem el" by auto
    from ListArgInfoStep[OF el(1)] r el(2) have "only_ran (set (reached_elem el)) h h'" by blast
    moreover have "set (reached_elem el) \<subseteq> S" using el(1) by (auto simp: S_def)
    ultimately show "only_ran S h h'" by (rule only_ran_mono)
  qed
  note l = only_ran_run_list[OF this]
  show ?case
  proof (intro allI impI)
    fix arg h v h'
    assume "process (ListArgInfoStep vs) arg h = Inr (v, h')"
    then obtain rs where "run_list (map process_elem vs) arg h = Inr (rs, h')"
      by (auto split: sum.splits)
    from l[OF this] show "only_ran (set (reached_step (ListArgInfoStep vs))) h h'"
      by (simp only: S_def)
  qed
next
  case (DictArgInfoStep kvs)
  define S where "S = set (reached_step (DictArgInfoStep kvs))"
  have "\<forall>kf\<in>set (map (map_prod id process_elem) kvs).
          \<forall>x h v h'. snd kf x h = Inr (v, h') \<longrightarrow> only_ran S h h'"
  proof (intro ballI allI impI)
    fix kf x h v h'
    assume "kf \<in> set (map (map_prod id process_elem) kvs)" and r: "snd kf x h = Inr (v, h')"
    then obtain k el where el: "(k, el) \<in> set kvs" "snd kf = process_elem el" by auto
    then have "el \<in> Basic_BNFs.snds (k, el)" by simp
    from DictArgInfoStep[OF el(1) this] r[unfolded el(2)]
    have "only_ran (set (reached_elem el)) h h'" by blast
    moreover have "set (reached_elem el) \<subseteq> S" using el(1) by (force simp: S_def)
    ultimately show "only_ran S h h'" by (rule only_ran_mono)
  qed
  note l = only_ran_run_each[OF this]
  show ?case
  proof (intro allI impI)
    fix arg h v h'
    assume "process (DictArgInfoStep kvs) arg h = Inr (v, h')"
    then obtain rs where "run_each (map (map_prod id process_elem) kvs) arg h = Inr (rs, h')"
      by (auto split: sum.splits)
    from l[OF this] show "only_ran (set (reached_step (DictArgInfoStep kvs))) h h'"
      by (simp only: S_def)
  qed
next
  case (Plain x)
  show ?case by (simp add: only_ran_refl)
next
  case (Nested x)
  then show ?case by simp
next
  case (ArgInfo steps)
  define S where "S = set (reached_arginfo (ArgInfo steps))"
  have "\<forall>f\<in>set (map process steps). \<forall>x h v h'. f x h = Inr (v, h') \<longrightarrow> only_ran S h h'"
  proof (intro ballI allI impI)
    fix f x h v h'
    assume "f \<in> set (map process steps)" and r: "f x h = Inr (v, h')"
    then obtain s where s: "s \<in> set steps" "f = process s" by auto
    from ArgInfo[OF s(1)] r s(2) have "only_ran (set (reached_step s)) h h'" by blast
    moreover have "set (reached_step s) \<subseteq> S" using s(1) by (auto simp: S_def)
    ultimately show "only_ran S h h'" by (rule only_ran_mono)
  qed
  note l = only_ran_run_loop[OF this]
  show ?case
  proof (intro allI impI)
    fix arg h v h'
    assume a: "process_steps (ArgInfo steps) arg h = Inr (v, h')"
    show "only_ran (set (reached_arginfo (ArgInfo steps))) h h'"
    proof (cases "steps = []")
      case True
      with a show ?thesis by (simp add: only_ran_refl)
    next
      case False
      with a have "run_loop (map process steps) arg h = Inr (v, h')" by simp
      from l[OF this] show ?thesis by (simp only: S_def)
    qed
  qed
next
  case (PipelinedPostproc i m fqn cargs)
  show ?case
  proof (intro allI impI)
    fix input h v h'
    assume a: "PipelinedPostproc_forward (PipelinedPostproc i m fqn cargs) input h = Inr (v, h')"
    show "only_ran (set (reached_postproc (PipelinedPostproc i m fqn cargs))) h h'"
    proof (cases "map_of (postproc_fwd_results (ctx_store h (pp_context h i))) fqn")
      case (Some res)
      with a show ?thesis by (simp add: only_ran_refl)
    next
      case None
      with a obtain input0 rest where inp: "input = input0 # rest"
        by (cases input) auto
      with a None obtain args kwargs h1 where
        b: "build_args_kwargs cargs input0 h = Inr ((args, kwargs), h1)" and
        h': "h' = h1\<lparr>ctx_store := (ctx_store h1)
                   (pp_context h1 i :=
                      (ctx_store h1 (pp_context h1 i))
                        \<lparr>postproc_fwd_results :=
                           AList.update fqn v
                             (postproc_fwd_results (ctx_store h1 (pp_context h1 i)))\<rparr>),
                 exec_log := exec_log h1 @ [(fqn, mod_id m)]\<rparr>"
        by (auto split: sum.splits)
      from PipelinedPostproc b have "only_ran (set (reached_callargs cargs)) h h1" by blast
      then have 1: "only_ran (insert (mod_id m) (set (reached_callargs cargs))) h h1"
        by (rule only_ran_mono) auto
      have 2: "only_ran (insert (mod_id m) (set (reached_callargs cargs))) h1 h'"
        unfolding only_ran_def h' by simp
      from only_ran_trans[OF 1 2] show ?thesis by simp
    qed
  qed
next
  case (CallArgs as kas)
  define S where "S = set (reached_callargs (CallArgs as kas))"
  have pa: "\<forall>f\<in>set (map process_steps as). \<forall>x h v h'. f x h = Inr (v, h') \<longrightarrow> only_ran S h h'"
  proof (intro ballI allI impI)
    fix f x h v h'
    assume "f \<in> set (map process_steps as)" and r: "f x h = Inr (v, h')"
    then obtain a where s: "a \<in> set as" "f = process_steps a" by auto
    from CallArgs(1)[OF s(1)] r s(2) have "only_ran (set (reached_arginfo a)) h h'" by blast
    moreover have "set (reached_arginfo a) \<subseteq> S" using s(1) by (auto simp: S_def)
    ultimately show "only_ran S h h'" by (rule only_ran_mono)
  qed
  have pk: "\<forall>kf\<in>set (map (map_prod id process_steps) kas).
          \<forall>x h v h'. snd kf x h = Inr (v, h') \<longrightarrow> only_ran S h h'"
  proof (intro ballI allI impI)
    fix kf x h v h'
    assume "kf \<in> set (map (map_prod id process_steps) kas)" and r: "snd kf x h = Inr (v, h')"
    then obtain k a where el: "(k, a) \<in> set kas" "snd kf = process_steps a" by auto
    then have "a \<in> Basic_BNFs.snds (k, a)" by simp
    from CallArgs(2)[OF el(1) this] r[unfolded el(2)]
    have "only_ran (set (reached_arginfo a)) h h'" by blast
    moreover have "set (reached_arginfo a) \<subseteq> S" using el(1) by (force simp: S_def)
    ultimately show "only_ran S h h'" by (rule only_ran_mono)
  qed
  show ?case
  proof (intro allI impI)
    fix arg h r h'
    assume "build_args_kwargs (CallArgs as kas) arg h = Inr (r, h')"
    then obtain args kwargs h1 where
      v: "run_list (map process_steps as) arg h = Inr (args, h1)" and
      k: "run_each (map (map_prod id process_steps) kas) arg h1 = Inr (kwargs, h')"
      by (auto split: sum.splits)
    from only_ran_run_list[OF pa v] only_ran_run_each[OF pk k]
    have "only_ran S h h'" by (rule only_ran_trans)
    then show "only_ran (set (reached_callargs (CallArgs as kas))) h h'" by (simp only: S_def)
  qed
qed






section \<open>The intercepting forwards\<close>

text \<open>
  Claim C4 as stated fails: with a pending request for \<open>ebc\<close> in the context but no
  module context for it, the asserted precondition holds and the call neither returns
  nor fails an assertion; \<^verbatim>\<open>module_contexts.pop\<close> raises \<^verbatim>\<open>KeyError\<close>.
\<close>

theorem C4_counterexample:
  "dict_contains ''ebc'' (input_dist_tensors_requests (ctx_store (pending_heap []) 0))
   \<and> PipelinedForward_call (\<lambda>m c d. (m, c, d)) example_forward (pending_heap []) = Inl KeyError"
  by (simp add: PipelinedForward_call_def example_forward_def pending_heap_def pending_context_def
        empty_heap_def empty_context_def dict_contains_def dict_pop_def)

text \<open>
  Claim C4, amended. Each intercepting forward fails its "Invalid usage" assertion
  exactly when its name is absent from its pending map (\<^verbatim>\<open>input_dist_tensors_requests\<close>
  for \<^verbatim>\<open>PipelinedForward\<close>, \<^verbatim>\<open>module_input_post_prefetch\<close> for
  \<^verbatim>\<open>PrefetchPipelinedForward\<close>). When the pending entry is there (for
  \<^verbatim>\<open>PipelinedForward\<close>, an awaitable), the module context for the name is there too, and
  the data is a tensor or multistreamable if a stream is set, the call returns
  \<^verbatim>\<open>compute_and_output_dist\<close> of the module on the module context and the data, in a
  heap where both entries are deleted from the context. When the pending entry is there
  and the module context is not, the call raises \<^verbatim>\<open>KeyError\<close>. A deleted name is absent
  from the map.
\<close>

theorem C4_intercepting_forward_call:
  "((PipelinedForward_call cod self h = Inl (AssertionError InvalidPipelinedForwardUsage)) =
      (\<not> dict_contains (fwd_name self)
            (input_dist_tensors_requests (ctx_store h (fwd_context self)))))
   \<and> ((PrefetchPipelinedForward_call cod self h
          = Inl (AssertionError InvalidPrefetchPipelinedForwardUsage)) =
      (\<not> dict_contains (fwd_name self)
            (module_input_post_prefetch (ctx_store h (fwd_context self)))))
   \<and> (map_of (input_dist_tensors_requests (ctx_store h (fwd_context self))) (fwd_name self)
          = Some (Awaitable data)
        \<and> map_of (module_contexts (ctx_store h (fwd_context self))) (fwd_name self) = Some mctx
        \<and> (fwd_stream self = None \<or> is_multistreamable data) \<longrightarrow>
        PipelinedForward_call cod self h =
          Inr (cod (fwd_module self) mctx data,
               h\<lparr>ctx_store := (ctx_store h)
                    (fwd_context self := (ctx_store h (fwd_context self))
                       \<lparr>input_dist_tensors_requests :=
                          AList.delete (fwd_name self)
                            (input_dist_tensors_requests (ctx_store h (fwd_context self))),
                        module_contexts :=
                          AList.delete (fwd_name self)
                            (module_contexts (ctx_store h (fwd_context self)))\<rparr>)\<rparr>))
   \<and> (map_of (module_input_post_prefetch (ctx_store h (fwd_context self))) (fwd_name self)
          = Some data
        \<and> map_of (module_contexts_post_prefetch (ctx_store h (fwd_context self))) (fwd_name self)
          = Some mctx
        \<and> (fwd_stream self = None \<or> is_multistreamable data) \<longrightarrow>
        PrefetchPipelinedForward_call cod self h =
          Inr (cod (fwd_module self) mctx data,
               h\<lparr>ctx_store := (ctx_store h)
                    (fwd_context self := (ctx_store h (fwd_context self))
                       \<lparr>module_input_post_prefetch :=
                          AList.delete (fwd_name self)
                            (module_input_post_prefetch (ctx_store h (fwd_context self))),
                        module_contexts_post_prefetch :=
                          AList.delete (fwd_name self)
                            (module_contexts_post_prefetch (ctx_store h (fwd_context self)))\<rparr>)\<rparr>))
   \<and> (map_of (input_dist_tensors_requests (ctx_store h (fwd_context self))) (fwd_name self)
          = Some (Awaitable data)
        \<and> map_of (module_contexts (ctx_store h (fwd_context self))) (fwd_name self) = None \<longrightarrow>
        PipelinedForward_call cod self h = Inl KeyError)
   \<and> (map_of (module_input_post_prefetch (ctx_store h (fwd_context self))) (fwd_name self)
          = Some data
        \<and> map_of (module_contexts_post_prefetch (ctx_store h (fwd_context self))) (fwd_name self)
          = None \<longrightarrow>
        PrefetchPipelinedForward_call cod self h = Inl KeyError)
   \<and> map_of (AList.delete (fwd_name self) d) (fwd_name self) = None"
proof (intro conjI impI)
  show "(PipelinedForward_call cod self h = Inl (AssertionError InvalidPipelinedForwardUsage)) =
      (\<not> dict_contains (fwd_name self)
            (input_dist_tensors_requests (ctx_store h (fwd_context self))))"
    by (auto simp: PipelinedForward_call_def Let_def dict_contains_def dict_pop_def
             split: option.splits request.splits)
next
  show "(PrefetchPipelinedForward_call cod self h
          = Inl (AssertionError InvalidPrefetchPipelinedForwardUsage)) =
      (\<not> dict_contains (fwd_name self)
            (module_input_post_prefetch (ctx_store h (fwd_context self))))"
    by (auto simp: PrefetchPipelinedForward_call_def Let_def dict_contains_def dict_pop_def
             split: option.splits)
next
  show "map_of (AList.delete (fwd_name self) d) (fwd_name self) = None"
    by (simp add: delete_conv')
qed (auto simp: PipelinedForward_call_def PrefetchPipelinedForward_call_def Let_def
          dict_contains_def dict_pop_def)

text \<open>The instance: the forward for \<open>ebc\<close> with its request and module context \<open>9\<close>
  pending, and the same forward on a context with no request.\<close>

theorem C4_witness:
  "PipelinedForward_call (\<lambda>m c d. (m, c, d)) example_forward (pending_heap [(''ebc'', 9)])
     = Inr ((1, 9, Multistreamable 4),
            (pending_heap [(''ebc'', 9)])
              \<lparr>ctx_store := (ctx_store (pending_heap [(''ebc'', 9)]))
                 (0 := empty_context)\<rparr>)
   \<and> PipelinedForward_call (\<lambda>m c d. (m, c, d)) example_forward empty_heap
     = Inl (AssertionError InvalidPipelinedForwardUsage)"
proof -
  have a: "map_of (input_dist_tensors_requests
                     (ctx_store (pending_heap [(''ebc'', 9)]) (fwd_context example_forward)))
             (fwd_name example_forward) = Some (Awaitable (Multistreamable 4))
        \<and> map_of (module_contexts
                     (ctx_store (pending_heap [(''ebc'', 9)]) (fwd_context example_forward)))
             (fwd_name example_forward) = Some 9
        \<and> (fwd_stream example_forward = None \<or> is_multistreamable (Multistreamable 4))"
    by (simp add: pending_heap_def pending_context_def example_forward_def empty_heap_def
          empty_context_def is_multistreamable_def)
  have b: "\<not> dict_contains (fwd_name example_forward)
            (input_dist_tensors_requests (ctx_store empty_heap (fwd_context example_forward)))"
    by (simp add: dict_contains_def empty_heap_def empty_context_def)
  note t = C4_intercepting_forward_call
    [where cod = "\<lambda>m c d. (m, c, d)" and self = example_forward]
  from t[where h = "pending_heap [(''ebc'', 9)]", THEN conjunct2, THEN conjunct2, THEN conjunct1,
         rule_format, OF a]
  have 1: "PipelinedForward_call (\<lambda>m c d. (m, c, d)) example_forward (pending_heap [(''ebc'', 9)])
     = Inr ((1, 9, Multistreamable 4),
            (pending_heap [(''ebc'', 9)])
              \<lparr>ctx_store := (ctx_store (pending_heap [(''ebc'', 9)]))
                 (0 := empty_context)\<rparr>)"
    by (simp add: pending_heap_def pending_context_def example_forward_def empty_heap_def
          empty_context_def)
  from t[where h = empty_heap, THEN conjunct1] b
  have 2: "PipelinedForward_call (\<lambda>m c d. (m, c, d)) example_forward empty_heap
     = Inl (AssertionError InvalidPipelinedForwardUsage)"
    by blast
  from 1 2 show ?thesis by blast
qed

section \<open>The graph rewriter\<close>

lemma rewrite_node_grows:
  "set (rw_pipelined_forwards st)
     \<subseteq> set (rw_pipelined_forwards (rewrite_node pf c ds gna sm node st))
   \<and> set (rw_non_pipelined_sharded_modules st)
     \<subseteq> set (rw_non_pipelined_sharded_modules (rewrite_node pf c ds gna sm node st))
   \<and> (is_intercepting pf (module_forward (rw_heap st) i) \<longrightarrow>
        is_intercepting pf (module_forward (rw_heap (rewrite_node pf c ds gna sm node st)) i))"
  by (auto simp: rewrite_node_def Let_def is_intercepting_def split: prod.splits option.splits)

lemma rewrite_loop_grows:
  "set (rw_pipelined_forwards st)
     \<subseteq> set (rw_pipelined_forwards (rewrite_loop pf c ds gna sm nodes st))
   \<and> set (rw_non_pipelined_sharded_modules st)
     \<subseteq> set (rw_non_pipelined_sharded_modules (rewrite_loop pf c ds gna sm nodes st))
   \<and> (is_intercepting pf (module_forward (rw_heap st) i) \<longrightarrow>
        is_intercepting pf (module_forward (rw_heap (rewrite_loop pf c ds gna sm nodes st)) i))"
proof (induction nodes arbitrary: st)
  case Nil
  show ?case by (simp add: rewrite_loop_def)
next
  case (Cons n ns)
  have e: "rewrite_loop pf c ds gna sm (n # ns) st
             = rewrite_loop pf c ds gna sm ns (rewrite_node pf c ds gna sm n st)"
    by (simp add: rewrite_loop_def)
  from Cons.IH[of "rewrite_node pf c ds gna sm n st"] rewrite_node_grows[of st pf c ds gna sm n i]
  show ?case unfolding e by blast
qed

lemma rewrite_loop_split:
  "i < length nodes \<Longrightarrow>
     rewrite_loop pf c ds gna sm nodes st =
       rewrite_loop pf c ds gna sm (drop (Suc i) nodes)
         (rewrite_node pf c ds gna sm (nodes ! i) (rewrite_loop pf c ds gna sm (take i nodes) st))"
proof -
  assume i: "i < length nodes"
  then have "nodes = take i nodes @ (nodes ! i) # drop (Suc i) nodes"
    by (simp add: id_take_nth_drop)
  then have "rewrite_loop pf c ds gna sm nodes st =
      rewrite_loop pf c ds gna sm (take i nodes @ (nodes ! i) # drop (Suc i) nodes) st"
    by simp
  then show ?thesis by (simp add: rewrite_loop_def)
qed

lemma rewrite_model_lists:
  "rw_pipelined_forwards (rewrite_model mdl c ds pf gna helper nodes h)
     = rw_pipelined_forwards
         (rewrite_loop pf c ds gna (collect_sharded_modules (underlying mdl)) nodes
            (rewrite_start h helper))"
  "rw_non_pipelined_sharded_modules (rewrite_model mdl c ds pf gna helper nodes h)
     = rw_non_pipelined_sharded_modules
         (rewrite_loop pf c ds gna (collect_sharded_modules (underlying mdl)) nodes
            (rewrite_start h helper))"
  "rw_heap (rewrite_model mdl c ds pf gna helper nodes h)
     = rw_heap
         (rewrite_loop pf c ds gna (collect_sharded_modules (underlying mdl)) nodes
            (rewrite_start h helper))"
  by (simp_all add: rewrite_model_def Let_def)

text \<open>
  Claim C1 as stated fails for a sharded module called with no argument: the node is
  skipped with a warning and the module is in neither returned list.
\<close>

theorem C1_counterexample:
  "dict_contains ''ebc'' (collect_sharded_modules (underlying example_model))
   \<and> rw_pipelined_forwards
        (rewrite_model example_model 0 None PipelinedForward example_get_node_args ()
           zero_input_graph empty_heap) = []
   \<and> rw_non_pipelined_sharded_modules
        (rewrite_model example_model 0 None PipelinedForward example_get_node_args ()
           zero_input_graph empty_heap) = []"
  by (simp add: rewrite_model_def rewrite_loop_def rewrite_start_def rewrite_node_def
        collect_sharded_modules_def example_model_def example_ebc_def example_ec_def
        zero_input_graph_def underlying_def join_path_def dict_contains_def Let_def)

text \<open>
  Claim C1, amended. Take the node at position \<open>i\<close> of the graph, a \<^verbatim>\<open>call_module\<close>
  node whose target is the sharded module \<open>child\<close>, and the state \<open>st\<close> of the loop when
  it reaches the node. If the node has no argument, the loop only logs the zero-input
  warning and both lists stay as they are. If it has arguments and \<^verbatim>\<open>get_node_args\<close>
  finds all of them, the node appends the module to the pipelined list, the module is
  in the returned pipelined list and its forward in the returned heap is an intercepting
  forward of the requested class. If it finds fewer, the node leaves the pipelined list
  and every forward as they are and appends the name to the non-pipelined names, and the
  name is in the returned list of non-pipelined names.
\<close>

theorem C1_rewrite_model_pipelines_or_reports:
  assumes "i < length nodes"
    and "node_op (nodes ! i) = ''call_module''"
    and "map_of (collect_sharded_modules (underlying mdl)) (node_target (nodes ! i)) = Some child"
  shows
    "(let sm = collect_sharded_modules (underlying mdl);
          node = nodes ! i;
          total_num_args = length (node_args node) + length (node_kwargs node);
          st = rewrite_loop pf c ds gna sm (take i nodes) (rewrite_start h helper);
          st' = rewrite_node pf c ds gna sm node st;
          num_found = snd (fst (gna (rw_args_helper st) node));
          final = rewrite_model mdl c ds pf gna helper nodes h
      in (total_num_args = 0 \<longrightarrow>
            st' = st\<lparr>rw_log := rw_log st @ [ZeroInputWarning (node_target node)]\<rparr>)
         \<and> (total_num_args \<noteq> 0 \<and> num_found = total_num_args \<longrightarrow>
              rw_pipelined_forwards st' = rw_pipelined_forwards st @ [child]
              \<and> child \<in> set (rw_pipelined_forwards final)
              \<and> is_intercepting pf (module_forward (rw_heap final) (mod_id child)))
         \<and> (total_num_args \<noteq> 0 \<and> num_found \<noteq> total_num_args \<longrightarrow>
              rw_pipelined_forwards st' = rw_pipelined_forwards st
              \<and> rw_heap st' = rw_heap st
              \<and> rw_non_pipelined_sharded_modules st'
                 = rw_non_pipelined_sharded_modules st @ [node_target node]
              \<and> node_target node \<in> set (rw_non_pipelined_sharded_modules final)))"
proof -
  define sm where "sm = collect_sharded_modules (underlying mdl)"
  define node where "node = nodes ! i"
  define st where "st = rewrite_loop pf c ds gna sm (take i nodes) (rewrite_start h helper)"
  define st' where "st' = rewrite_node pf c ds gna sm node st"
  define final where "final = rewrite_model mdl c ds pf gna helper nodes h"
  define tail where "tail = rewrite_loop pf c ds gna sm (drop (Suc i) nodes) st'"
  have op: "node_op node = ''call_module''" and ch: "map_of sm (node_target node) = Some child"
    using assms by (simp_all add: node_def sm_def)
  have tail: "rewrite_loop pf c ds gna sm nodes (rewrite_start h helper) = tail"
    unfolding tail_def st'_def st_def node_def by (rule rewrite_loop_split[OF assms(1)])
  have fp: "rw_pipelined_forwards final = rw_pipelined_forwards tail"
    and fn: "rw_non_pipelined_sharded_modules final = rw_non_pipelined_sharded_modules tail"
    and fh: "rw_heap final = rw_heap tail"
    unfolding final_def tail[symmetric] sm_def by (rule rewrite_model_lists)+
  note grows = rewrite_loop_grows[of st' pf c ds gna sm "drop (Suc i) nodes" "mod_id child",
      folded tail_def]
  have zero: "length (node_args node) + length (node_kwargs node) = 0 \<Longrightarrow>
      st' = st\<lparr>rw_log := rw_log st @ [ZeroInputWarning (node_target node)]\<rparr>"
    using op ch by (simp add: st'_def rewrite_node_def dict_contains_def)
  have found: "length (node_args node) + length (node_kwargs node) \<noteq> 0 \<Longrightarrow>
      snd (fst (gna (rw_args_helper st) node))
        = length (node_args node) + length (node_kwargs node) \<Longrightarrow>
      rw_pipelined_forwards st' = rw_pipelined_forwards st @ [child]
      \<and> is_intercepting pf (module_forward (rw_heap st') (mod_id child))"
    using op ch
    by (auto simp: st'_def rewrite_node_def dict_contains_def Let_def is_intercepting_def
             split: prod.splits)
  have missing: "length (node_args node) + length (node_kwargs node) \<noteq> 0 \<Longrightarrow>
      snd (fst (gna (rw_args_helper st) node))
        \<noteq> length (node_args node) + length (node_kwargs node) \<Longrightarrow>
      rw_pipelined_forwards st' = rw_pipelined_forwards st
      \<and> rw_heap st' = rw_heap st
      \<and> rw_non_pipelined_sharded_modules st'
         = rw_non_pipelined_sharded_modules st @ [node_target node]"
    using op ch
    by (auto simp: st'_def rewrite_node_def dict_contains_def Let_def split: prod.splits)
  have "(length (node_args node) + length (node_kwargs node) = 0 \<longrightarrow>
            st' = st\<lparr>rw_log := rw_log st @ [ZeroInputWarning (node_target node)]\<rparr>)
         \<and> (length (node_args node) + length (node_kwargs node) \<noteq> 0
             \<and> snd (fst (gna (rw_args_helper st) node))
                 = length (node_args node) + length (node_kwargs node) \<longrightarrow>
              rw_pipelined_forwards st' = rw_pipelined_forwards st @ [child]
              \<and> child \<in> set (rw_pipelined_forwards final)
              \<and> is_intercepting pf (module_forward (rw_heap final) (mod_id child)))
         \<and> (length (node_args node) + length (node_kwargs node) \<noteq> 0
             \<and> snd (fst (gna (rw_args_helper st) node))
                 \<noteq> length (node_args node) + length (node_kwargs node) \<longrightarrow>
              rw_pipelined_forwards st' = rw_pipelined_forwards st
              \<and> rw_heap st' = rw_heap st
              \<and> rw_non_pipelined_sharded_modules st'
                 = rw_non_pipelined_sharded_modules st @ [node_target node]
              \<and> node_target node \<in> set (rw_non_pipelined_sharded_modules final))"
  proof (intro conjI impI)
    assume "length (node_args node) + length (node_kwargs node) = 0"
    then show "st' = st\<lparr>rw_log := rw_log st @ [ZeroInputWarning (node_target node)]\<rparr>"
      by (rule zero)
  next
    assume a: "length (node_args node) + length (node_kwargs node) \<noteq> 0
             \<and> snd (fst (gna (rw_args_helper st) node))
                 = length (node_args node) + length (node_kwargs node)"
    with found show p: "rw_pipelined_forwards st' = rw_pipelined_forwards st @ [child]" by blast
    then have "child \<in> set (rw_pipelined_forwards st')" by simp
    with grows show "child \<in> set (rw_pipelined_forwards final)" unfolding fp by blast
    from a found have "is_intercepting pf (module_forward (rw_heap st') (mod_id child))" by blast
    with grows show "is_intercepting pf (module_forward (rw_heap final) (mod_id child))"
      unfolding fh by blast
  next
    assume a: "length (node_args node) + length (node_kwargs node) \<noteq> 0
             \<and> snd (fst (gna (rw_args_helper st) node))
                 \<noteq> length (node_args node) + length (node_kwargs node)"
    with missing show "rw_pipelined_forwards st' = rw_pipelined_forwards st"
      and "rw_heap st' = rw_heap st"
      and n: "rw_non_pipelined_sharded_modules st'
                 = rw_non_pipelined_sharded_modules st @ [node_target node]"
      by blast+
    then have "node_target node \<in> set (rw_non_pipelined_sharded_modules st')" by simp
    with grows show "node_target node \<in> set (rw_non_pipelined_sharded_modules final)"
      unfolding fn by blast
  qed
  then show ?thesis
    unfolding Let_def sm_def[symmetric] node_def[symmetric] st_def[symmetric]
      st'_def[symmetric] final_def[symmetric] .
qed

text \<open>The instance: in the example graph \<open>ebc\<close> is pipelined and \<open>ec\<close> is reported.\<close>

theorem C1_witness:
  "example_ebc \<in> set (rw_pipelined_forwards
        (rewrite_model example_model 0 None PipelinedForward example_get_node_args ()
           example_graph empty_heap))
   \<and> is_intercepting PipelinedForward
        (module_forward
           (rw_heap (rewrite_model example_model 0 None PipelinedForward example_get_node_args ()
                       example_graph empty_heap))
           (mod_id example_ebc))
   \<and> ''ec'' \<in> set (rw_non_pipelined_sharded_modules
        (rewrite_model example_model 0 None PipelinedForward example_get_node_args ()
           example_graph empty_heap))"
proof -
  have sm: "collect_sharded_modules (underlying example_model)
              = [(''ebc'', example_ebc), (''ec'', example_ec)]"
    by (simp add: collect_sharded_modules_def example_model_def example_ebc_def example_ec_def
          underlying_def join_path_def)
  have l0: "0 < length example_graph" and l1: "1 < length example_graph"
    by (simp_all add: example_graph_def)
  have o0: "node_op (example_graph ! 0) = ''call_module''"
    and o1: "node_op (example_graph ! 1) = ''call_module''"
    by (simp_all add: example_graph_def)
  have c0: "map_of (collect_sharded_modules (underlying example_model))
              (node_target (example_graph ! 0)) = Some example_ebc"
    and c1: "map_of (collect_sharded_modules (underlying example_model))
              (node_target (example_graph ! 1)) = Some example_ec"
    by (simp_all add: sm example_graph_def)
  from C1_rewrite_model_pipelines_or_reports
         [OF l0 o0 c0, where pf = PipelinedForward and c = 0 and ds = None
            and gna = example_get_node_args and h = empty_heap and helper = "()"]
  have 1: "example_ebc \<in> set (rw_pipelined_forwards
        (rewrite_model example_model 0 None PipelinedForward example_get_node_args ()
           example_graph empty_heap))
     \<and> is_intercepting PipelinedForward
        (module_forward
           (rw_heap (rewrite_model example_model 0 None PipelinedForward example_get_node_args ()
                       example_graph empty_heap))
           (mod_id example_ebc))"
    by (simp add: Let_def example_graph_def example_get_node_args_def)
  from C1_rewrite_model_pipelines_or_reports
         [OF l1 o1 c1, where pf = PipelinedForward and c = 0 and ds = None
            and gna = example_get_node_args and h = empty_heap and helper = "()"]
  have 2: "''ec'' \<in> set (rw_non_pipelined_sharded_modules
        (rewrite_model example_model 0 None PipelinedForward example_get_node_args ()
           example_graph empty_heap))"
    by (simp add: Let_def example_graph_def example_get_node_args_def)
  from 1 2 show ?thesis by blast
qed

section \<open>The context window\<close>

lemma set_forward_contexts_effect:
  "attached ms h \<Longrightarrow>
     \<exists>h'. set_forward_contexts ms c h = Inr h'
       \<and> ctx_store h' = ctx_store h \<and> next_ctx h' = next_ctx h \<and> pp_context h' = pp_context h
       \<and> trace h' = trace h \<and> exec_log h' = exec_log h \<and> forward_hooks h' = forward_hooks h
       \<and> dist_forward h' = dist_forward h
       \<and> forwards_at ms c h'
       \<and> (\<forall>ns. forwards_at ns c h \<longrightarrow> forwards_at ns c h')"
proof (induction ms arbitrary: h)
  case Nil
  show ?case by (simp add: forwards_at_def)
next
  case (Cons m ms)
  from Cons.prems obtain f where f: "module_forward h (mod_id m) = InterceptingForward f"
    by (auto simp: attached_def split: callable.splits)
  define h1 where "h1 = h\<lparr>module_forward := (module_forward h)
                 (mod_id m := InterceptingForward (f\<lparr>fwd_context := c\<rparr>))\<rparr>"
  have a1: "attached ms h1"
    using Cons.prems by (auto simp: attached_def h1_def list_all_iff split: callable.splits)
  from Cons.IH[OF a1] obtain h' where
    r: "set_forward_contexts ms c h1 = Inr h'" and
    fr: "ctx_store h' = ctx_store h1" "next_ctx h' = next_ctx h1" "pp_context h' = pp_context h1"
      "trace h' = trace h1" "exec_log h' = exec_log h1" "forward_hooks h' = forward_hooks h1"
      "dist_forward h' = dist_forward h1" and
    at: "forwards_at ms c h'" and
    keep: "\<forall>ns. forwards_at ns c h1 \<longrightarrow> forwards_at ns c h'"
    by blast
  have step: "\<forall>ns. forwards_at ns c h \<longrightarrow> forwards_at ns c h1"
    by (auto simp: forwards_at_def h1_def list_all_iff split: callable.splits)
  have "forwards_at [m] c h1" by (simp add: forwards_at_def h1_def)
  with keep have "forwards_at [m] c h'" by blast
  with at have "forwards_at (m # ms) c h'" by (simp add: forwards_at_def)
  moreover have "set_forward_contexts (m # ms) c h = Inr h'"
    using f r by (simp add: h1_def)
  moreover have "\<forall>ns. forwards_at ns c h \<longrightarrow> forwards_at ns c h'"
    using step keep by blast
  ultimately show ?case using fr by (simp add: h1_def)
qed

lemma set_postproc_contexts_effect:
  "ctx_store (set_postproc_contexts ps c h) = ctx_store h
   \<and> next_ctx (set_postproc_contexts ps c h) = next_ctx h
   \<and> module_forward (set_postproc_contexts ps c h) = module_forward h
   \<and> trace (set_postproc_contexts ps c h) = trace h
   \<and> exec_log (set_postproc_contexts ps c h) = exec_log h
   \<and> forward_hooks (set_postproc_contexts ps c h) = forward_hooks h
   \<and> dist_forward (set_postproc_contexts ps c h) = dist_forward h
   \<and> postprocs_at ps c (set_postproc_contexts ps c h)
   \<and> (\<forall>qs. postprocs_at qs c h \<longrightarrow> postprocs_at qs c (set_postproc_contexts ps c h))"
proof (induction ps arbitrary: h)
  case Nil
  show ?case by (simp add: postprocs_at_def)
next
  case (Cons p ps)
  define h1 where "h1 = h\<lparr>pp_context := (pp_context h)(pp_id p := c)\<rparr>"
  have e: "set_postproc_contexts (p # ps) c h = set_postproc_contexts ps c h1"
    by (simp add: h1_def)
  have step: "\<forall>qs. postprocs_at qs c h \<longrightarrow> postprocs_at qs c h1"
    by (auto simp: postprocs_at_def h1_def list_all_iff)
  have "postprocs_at [p] c h1" by (simp add: postprocs_at_def h1_def)
  with Cons.IH[of h1] have "postprocs_at [p] c (set_postproc_contexts ps c h1)" by blast
  with Cons.IH[of h1] have "postprocs_at (p # ps) c (set_postproc_contexts ps c h1)"
    by (simp add: postprocs_at_def)
  with Cons.IH[of h1] step show ?case unfolding e by (simp add: h1_def)
qed

lemma forwards_at_attached: "forwards_at ms c h \<Longrightarrow> attached ms h"
  by (auto simp: forwards_at_def attached_def list_all_iff split: callable.splits)

lemma attached_cong:
  "module_forward h' = module_forward h \<Longrightarrow> attached ms h' = attached ms h"
  by (simp add: attached_def)

lemma forwards_at_cong:
  "module_forward h' = module_forward h \<Longrightarrow> forwards_at ms c h' = forwards_at ms c h"
  by (simp add: forwards_at_def)

lemma advance_context_effect:
  assumes c: "contexts self = oldest # rest" and a: "attached (pipelined_modules self) h"
  shows "\<exists>h'. advance_context self h
           = Inr (self\<lparr>contexts := rest @ [next_ctx h], next_index := next_index self + 1\<rparr>, h')
     \<and> next_ctx h' = Suc (next_ctx h)
     \<and> ctx_store h' = (ctx_store h)
          (next_ctx h := new_context (with_prefetch self) (next_index self))
     \<and> trace h' = trace h @ [AdvanceContext oldest (next_ctx h)]
     \<and> exec_log h' = exec_log h \<and> forward_hooks h' = forward_hooks h
     \<and> dist_forward h' = dist_forward h
     \<and> forwards_at (pipelined_modules self) (hd (rest @ [next_ctx h])) h'
     \<and> postprocs_at (pipelined_postprocs self) (hd (rest @ [next_ctx h])) h'"
proof -
  define h0 where "h0 = h\<lparr>trace := trace h @ [AdvanceContext oldest (next_ctx h)]\<rparr>"
  define h1 where "h1 = h0\<lparr>ctx_store := (ctx_store h0)
        (next_ctx h0 := new_context (with_prefetch (self\<lparr>contexts := rest\<rparr>)) (next_index self)),
      next_ctx := Suc (next_ctx h0)\<rparr>"
  define self1 where
    "self1 = self\<lparr>contexts := rest @ [next_ctx h], next_index := next_index self + 1\<rparr>"
  define front where "front = hd (rest @ [next_ctx h])"
  have add: "add_context (self\<lparr>contexts := rest\<rparr>) h0 = (self1, h1)"
    by (simp add: add_context_def create_context_def h1_def self1_def h0_def)
  have cur: "context_for_model_forward self1 h1 = Inr front"
    by (cases rest)
       (simp_all add: context_for_model_forward_def current_context_def list_index_def self1_def
          should_assert_context_invariants_def WITH_CONTEXT_ASSERTIONS_def front_def)
  have a1: "attached (pipelined_modules self1) h1"
    using a by (simp add: attached_def self1_def h1_def h0_def)
  from set_forward_contexts_effect[OF a1, of front] obtain h2 where
    s: "set_forward_contexts (pipelined_modules self1) front h1 = Inr h2" and
    fr: "ctx_store h2 = ctx_store h1" "next_ctx h2 = next_ctx h1" "pp_context h2 = pp_context h1"
      "trace h2 = trace h1" "exec_log h2 = exec_log h1" "forward_hooks h2 = forward_hooks h1"
      "dist_forward h2 = dist_forward h1" and
    at: "forwards_at (pipelined_modules self1) front h2"
    by blast
  define h3 where "h3 = set_postproc_contexts (pipelined_postprocs self1) front h2"
  note pe = set_postproc_contexts_effect[of "pipelined_postprocs self1" front h2, folded h3_def]
  have smc: "set_module_context self1 front h1 = Inr h3"
    by (simp add: set_module_context_def s h3_def)
  have adv: "advance_context self h = Inr (self1, h3)"
    using c add cur smc
    by (simp add: advance_context_def assert_contexts_count_def WITH_CONTEXT_ASSERTIONS_def
          h0_def)
  have f3: "forwards_at (pipelined_modules self) front h3"
    using at pe forwards_at_cong[of h3 h2] by (simp add: self1_def)
  have p3: "postprocs_at (pipelined_postprocs self) front h3"
    using pe by (simp add: self1_def)
  have "next_ctx h3 = Suc (next_ctx h)" using pe fr by (simp add: h1_def h0_def)
  moreover have "ctx_store h3 = (ctx_store h)
          (next_ctx h := new_context (with_prefetch self) (next_index self))"
    using pe fr by (simp add: h1_def h0_def with_prefetch_def)
  moreover have "trace h3 = trace h @ [AdvanceContext oldest (next_ctx h)]"
    using pe fr by (simp add: h1_def h0_def)
  moreover have "exec_log h3 = exec_log h" "forward_hooks h3 = forward_hooks h"
    "dist_forward h3 = dist_forward h"
    using pe fr by (simp_all add: h1_def h0_def)
  ultimately show ?thesis using adv f3 p3 unfolding self1_def front_def by blast
qed

lemma advance_context_times_effect:
  "contexts self \<noteq> [] \<Longrightarrow> attached (pipelined_modules self) h \<Longrightarrow>
     \<exists>h'. advance_context_times n self h
            = Inr (self\<lparr>contexts := drop n (contexts self @ map (\<lambda>k. next_ctx h + k) [0..<n]),
                       next_index := next_index self + int n\<rparr>, h')
       \<and> next_ctx h' = next_ctx h + n
       \<and> (\<forall>a<next_ctx h. ctx_store h' a = ctx_store h a)
       \<and> (\<forall>k<n. ctx_store h' (next_ctx h + k)
                   = new_context (with_prefetch self) (next_index self + int k))
       \<and> attached (pipelined_modules self) h'
       \<and> (n > 0 \<longrightarrow>
            forwards_at (pipelined_modules self)
              (hd (drop n (contexts self @ map (\<lambda>k. next_ctx h + k) [0..<n]))) h'
            \<and> postprocs_at (pipelined_postprocs self)
              (hd (drop n (contexts self @ map (\<lambda>k. next_ctx h + k) [0..<n]))) h')"
proof (induction n arbitrary: self h)
  case 0
  then show ?case by simp
next
  case (Suc n)
  from Suc.prems(1) obtain oldest rest where c: "contexts self = oldest # rest"
    by (cases "contexts self") auto
  define N where "N = next_ctx h"
  define self1 where
    "self1 = self\<lparr>contexts := rest @ [N], next_index := next_index self + 1\<rparr>"
  from advance_context_effect[OF c Suc.prems(2)] obtain h1 where
    adv: "advance_context self h = Inr (self1, h1)" and
    n1: "next_ctx h1 = Suc N" and
    cs1: "ctx_store h1 = (ctx_store h)(N := new_context (with_prefetch self) (next_index self))" and
    f1: "forwards_at (pipelined_modules self) (hd (rest @ [N])) h1" and
    p1: "postprocs_at (pipelined_postprocs self) (hd (rest @ [N])) h1"
    unfolding self1_def N_def by blast
  have ne1: "contexts self1 \<noteq> []" by (simp add: self1_def)
  have a1: "attached (pipelined_modules self1) h1"
    using forwards_at_attached[OF f1] by (simp add: self1_def)
  define cs' where "cs' = drop n (contexts self1 @ map (\<lambda>k. next_ctx h1 + k) [0..<n])"
  from Suc.IH[OF ne1 a1, folded cs'_def] obtain h' where
    r: "advance_context_times n self1 h1
          = Inr (self1\<lparr>contexts := cs', next_index := next_index self1 + int n\<rparr>, h')" and
    n': "next_ctx h' = next_ctx h1 + n" and
    fr: "\<forall>a<next_ctx h1. ctx_store h' a = ctx_store h1 a" and
    nw: "\<forall>k<n. ctx_store h' (next_ctx h1 + k)
                   = new_context (with_prefetch self1) (next_index self1 + int k)" and
    a': "attached (pipelined_modules self1) h'" and
    at: "n > 0 \<longrightarrow> forwards_at (pipelined_modules self1) (hd cs') h'
                  \<and> postprocs_at (pipelined_postprocs self1) (hd cs') h'"
    by blast
  have m: "map (\<lambda>k. N + k) [0..<Suc n] = N # map (\<lambda>k. Suc N + k) [0..<n]"
    by (simp only: map_upt_Suc) simp
  have cs: "drop (Suc n) (contexts self @ map (\<lambda>k. next_ctx h + k) [0..<Suc n]) = cs'"
    unfolding cs'_def N_def[symmetric] m c by (simp add: self1_def n1)
  have rec: "self1\<lparr>contexts := cs', next_index := next_index self1 + int n\<rparr>
               = self\<lparr>contexts := cs', next_index := next_index self + int (Suc n)\<rparr>"
    by (simp add: self1_def)
  have run: "advance_context_times (Suc n) self h
               = Inr (self\<lparr>contexts := cs', next_index := next_index self + int (Suc n)\<rparr>, h')"
    using adv r rec by simp
  have below: "\<forall>a<next_ctx h. ctx_store h' a = ctx_store h a"
    using fr n1 cs1 by (simp add: N_def)
  have new: "\<forall>k<Suc n. ctx_store h' (next_ctx h + k)
                   = new_context (with_prefetch self) (next_index self + int k)"
  proof (intro allI impI)
    fix k assume k: "k < Suc n"
    show "ctx_store h' (next_ctx h + k)
            = new_context (with_prefetch self) (next_index self + int k)"
    proof (cases k)
      case 0
      with fr n1 cs1 show ?thesis by (simp add: N_def)
    next
      case (Suc j)
      with k have "j < n" by simp
      with nw have "ctx_store h' (next_ctx h1 + j)
                   = new_context (with_prefetch self1) (next_index self1 + int j)" by blast
      then show ?thesis using Suc n1
        by (simp add: N_def self1_def with_prefetch_def add.assoc)
    qed
  qed
  have att: "attached (pipelined_modules self) h'" using a' by (simp add: self1_def)
  have fin: "forwards_at (pipelined_modules self) (hd cs') h'
             \<and> postprocs_at (pipelined_postprocs self) (hd cs') h'"
  proof (cases n)
    case 0
    with r have "h' = h1" by simp
    moreover from 0 have "cs' = rest @ [N]" by (simp add: cs'_def self1_def)
    ultimately show ?thesis using f1 p1 by simp
  next
    case (Suc j)
    with at show ?thesis by (simp add: self1_def)
  qed
  from run n' n1 below new att fin show ?case
    unfolding cs by (simp add: N_def)
qed

lemma window_length:
  "contexts self \<noteq> [] \<Longrightarrow>
     length (drop n (contexts self @ map (\<lambda>k. (c::nat) + k) [0..<n])) = length (contexts self)"
  by simp

lemma initialize_contexts_effect:
  assumes "contexts self = []"
  shows "\<exists>c self' h'. initialize_or_reattach_contexts self h = Inr ((c, self'), h')
     \<and> contexts self' = map (\<lambda>k. next_ctx h + k) [0..<window_size_of self]
     \<and> c = last (contexts self')
     \<and> next_ctx h' = next_ctx h + window_size_of self
     \<and> next_index self' = next_index self + 1
     \<and> with_prefetch self' = with_prefetch self
     \<and> pipelined_modules self' = pipelined_modules self
     \<and> module_forward h' = module_forward h"
proof (cases "with_prefetch self")
  case True
  with assms show ?thesis
    by (simp add: initialize_or_reattach_contexts_def is_reattaching_def create_context_def
          add_context_def list_index_def assert_contexts_count_def WITH_CONTEXT_ASSERTIONS_def
          window_size_of_def with_prefetch_def upt_rec numeral_3_eq_3)
next
  case False
  with assms show ?thesis
    by (simp add: initialize_or_reattach_contexts_def is_reattaching_def create_context_def
          add_context_def list_index_def assert_contexts_count_def WITH_CONTEXT_ASSERTIONS_def
          window_size_of_def with_prefetch_def upt_rec numeral_2_eq_2)
qed

text \<open>
  Claim C2. Initialization from an empty deque leaves a window of three contexts with a
  prefetch stream and of two without. From a window of that size whose pipelined
  modules carry intercepting forwards, any number \<open>n\<close> of calls of \<^verbatim>\<open>_advance_context\<close>
  succeed, and the window has the same size afterwards: it is the old window followed by
  the \<open>n\<close> newly allocated contexts, without its first \<open>n\<close> entries, so that each call
  removed the front context and appended one new context at the back. The \<open>k\<close>-th new
  context is a fresh object with the index \<open>next_index + k\<close> and empty maps,
  \<^verbatim>\<open>_next_index\<close> has grown by \<open>n\<close>, and after at least one call the forward of every
  pipelined module and every pipelined postproc has the front of the window as its
  context.
\<close>

theorem C2_context_window_constant:
  "(contexts unattached = [] \<longrightarrow>
      (\<exists>c self1 h1. initialize_or_reattach_contexts unattached h = Inr ((c, self1), h1)
          \<and> length (contexts self1) = window_size_of self1
          \<and> window_size_of self1 = window_size_of unattached))
   \<and> (length (contexts self) = window_size_of self \<and> attached (pipelined_modules self) h \<longrightarrow>
      (\<exists>self' h'. advance_context_times n self h = Inr (self', h')
          \<and> length (contexts self') = window_size_of self'
          \<and> contexts self' = drop n (contexts self @ map (\<lambda>k. next_ctx h + k) [0..<n])
          \<and> next_index self' = next_index self + int n
          \<and> next_ctx h' = next_ctx h + n
          \<and> (\<forall>k<n. ctx_store h' (next_ctx h + k)
                      = new_context (with_prefetch self) (next_index self + int k))
          \<and> pipelined_modules self' = pipelined_modules self
          \<and> pipelined_postprocs self' = pipelined_postprocs self
          \<and> (n > 0 \<longrightarrow>
                forwards_at (pipelined_modules self) (hd (contexts self')) h'
                \<and> postprocs_at (pipelined_postprocs self) (hd (contexts self')) h')))"
proof (intro conjI impI)
  assume e: "contexts unattached = []"
  from initialize_contexts_effect[OF e, of h] obtain c self1 h1 where
    i: "initialize_or_reattach_contexts unattached h = Inr ((c, self1), h1)" and
    cs: "contexts self1 = map (\<lambda>k. next_ctx h + k) [0..<window_size_of unattached]" and
    w: "with_prefetch self1 = with_prefetch unattached"
    by blast
  from cs w have "length (contexts self1) = window_size_of self1"
    by (simp add: window_size_of_def)
  moreover from w have "window_size_of self1 = window_size_of unattached"
    by (simp add: window_size_of_def)
  ultimately show "\<exists>c self1 h1. initialize_or_reattach_contexts unattached h = Inr ((c, self1), h1)
          \<and> length (contexts self1) = window_size_of self1
          \<and> window_size_of self1 = window_size_of unattached" using i by blast
next
  assume a: "length (contexts self) = window_size_of self \<and> attached (pipelined_modules self) h"
  then have ne: "contexts self \<noteq> []" by (auto simp: window_size_of_def split: if_splits)
  define cs' where "cs' = drop n (contexts self @ map (\<lambda>k. next_ctx h + k) [0..<n])"
  define self' where "self' = self\<lparr>contexts := cs', next_index := next_index self + int n\<rparr>"
  from advance_context_times_effect[OF ne, of h n, folded cs'_def, folded self'_def] a
  obtain h' where
    r: "advance_context_times n self h = Inr (self', h')" and
    n': "next_ctx h' = next_ctx h + n" and
    nw: "\<forall>k<n. ctx_store h' (next_ctx h + k)
                   = new_context (with_prefetch self) (next_index self + int k)" and
    at: "n > 0 \<longrightarrow> forwards_at (pipelined_modules self) (hd cs') h'
                  \<and> postprocs_at (pipelined_postprocs self) (hd cs') h'"
    by blast
  have l: "length (contexts self') = window_size_of self'"
    using a window_length[OF ne, of n "next_ctx h"]
    by (simp add: self'_def cs'_def window_size_of_def with_prefetch_def)
  have "contexts self' = cs'" "next_index self' = next_index self + int n"
    "pipelined_modules self' = pipelined_modules self"
    "pipelined_postprocs self' = pipelined_postprocs self"
    by (simp_all add: self'_def)
  with r l n' nw at
  have "advance_context_times n self h = Inr (self', h')
          \<and> length (contexts self') = window_size_of self'
          \<and> contexts self' = drop n (contexts self @ map (\<lambda>k. next_ctx h + k) [0..<n])
          \<and> next_index self' = next_index self + int n
          \<and> next_ctx h' = next_ctx h + n
          \<and> (\<forall>k<n. ctx_store h' (next_ctx h + k)
                      = new_context (with_prefetch self) (next_index self + int k))
          \<and> pipelined_modules self' = pipelined_modules self
          \<and> pipelined_postprocs self' = pipelined_postprocs self
          \<and> (n > 0 \<longrightarrow>
                forwards_at (pipelined_modules self) (hd (contexts self')) h'
                \<and> postprocs_at (pipelined_postprocs self) (hd (contexts self')) h')"
    unfolding cs'_def by simp
  then show "\<exists>self' h'. advance_context_times n self h = Inr (self', h')
          \<and> length (contexts self') = window_size_of self'
          \<and> contexts self' = drop n (contexts self @ map (\<lambda>k. next_ctx h + k) [0..<n])
          \<and> next_index self' = next_index self + int n
          \<and> next_ctx h' = next_ctx h + n
          \<and> (\<forall>k<n. ctx_store h' (next_ctx h + k)
                      = new_context (with_prefetch self) (next_index self + int k))
          \<and> pipelined_modules self' = pipelined_modules self
          \<and> pipelined_postprocs self' = pipelined_postprocs self
          \<and> (n > 0 \<longrightarrow>
                forwards_at (pipelined_modules self) (hd (contexts self')) h'
                \<and> postprocs_at (pipelined_postprocs self) (hd (contexts self')) h')"
    by blast
qed

text \<open>The instance: initialization without prefetch gives two contexts, and three
  advances from the window \<open>[0, 1]\<close> leave the window \<open>[3, 4]\<close> with the forward of \<open>ebc\<close>
  and the interceptor \<open>pp\<close> on context \<open>3\<close>.\<close>

theorem C2_witness:
  "(\<exists>c self1 h1. initialize_or_reattach_contexts (example_sdd\<lparr>contexts := []\<rparr>) empty_heap
                    = Inr ((c, self1), h1)
        \<and> length (contexts self1) = 2)
   \<and> (\<exists>self' h'. advance_context_times 3 example_sdd attached_heap = Inr (self', h')
        \<and> contexts self' = [3, 4] \<and> next_index self' = 4
        \<and> forwards_at [example_ebc] 3 h' \<and> postprocs_at [example_postproc] 3 h')"
proof -
  have e: "contexts (example_sdd\<lparr>contexts := []\<rparr>) = []" by simp
  have a1: "length (contexts example_sdd) = window_size_of example_sdd"
    by (simp add: example_sdd_def window_size_of_def with_prefetch_def)
  have a2: "attached (pipelined_modules example_sdd) attached_heap"
    by (simp add: example_sdd_def attached_def attached_heap_def example_ebc_def)
  have u: "[0..<3] = [0, Suc 0, Suc (Suc 0)]"
    by (simp add: numeral_3_eq_3 upt_Suc_append)
  note t = C2_context_window_constant
    [where self = example_sdd and h = attached_heap and n = 3, THEN conjunct2,
     THEN mp, OF conjI, OF a1 a2]
  then obtain self' h' where big:
    "advance_context_times 3 example_sdd attached_heap = Inr (self', h')
          \<and> length (contexts self') = window_size_of self'
          \<and> contexts self'
              = drop 3 (contexts example_sdd @ map (\<lambda>k. next_ctx attached_heap + k) [0..<3])
          \<and> next_index self' = next_index example_sdd + int 3
          \<and> next_ctx h' = next_ctx attached_heap + 3
          \<and> (\<forall>k<3. ctx_store h' (next_ctx attached_heap + k)
                      = new_context (with_prefetch example_sdd) (next_index example_sdd + int k))
          \<and> pipelined_modules self' = pipelined_modules example_sdd
          \<and> pipelined_postprocs self' = pipelined_postprocs example_sdd
          \<and> (0 < (3::nat) \<longrightarrow>
                forwards_at (pipelined_modules example_sdd) (hd (contexts self')) h'
                \<and> postprocs_at (pipelined_postprocs example_sdd) (hd (contexts self')) h')"
    by (elim exE)
  note r = big[THEN conjunct1]
  note c = big[THEN conjunct2, THEN conjunct2, THEN conjunct1]
  note ni = big[THEN conjunct2, THEN conjunct2, THEN conjunct2, THEN conjunct1]
  note at = big[THEN conjunct2, THEN conjunct2, THEN conjunct2, THEN conjunct2, THEN conjunct2,
                THEN conjunct2, THEN conjunct2, THEN conjunct2, THEN mp]
  have c': "contexts self' = [3, 4]"
    unfolding c u by (simp add: example_sdd_def attached_heap_def)
  have ni': "next_index self' = 4" unfolding ni by (simp add: example_sdd_def)
  have three: "0 < (3::nat)" by simp
  have f: "forwards_at [example_ebc] 3 h'"
    using at[OF three, THEN conjunct1] unfolding c' by (simp add: example_sdd_def)
  have p: "postprocs_at [example_postproc] 3 h'"
    using at[OF three, THEN conjunct2] unfolding c' by (simp add: example_sdd_def)
  have 2: "\<exists>self' h'. advance_context_times 3 example_sdd attached_heap = Inr (self', h')
        \<and> contexts self' = [3, 4] \<and> next_index self' = 4
        \<and> forwards_at [example_ebc] 3 h' \<and> postprocs_at [example_postproc] 3 h'"
    using r c' ni' f p by (intro exI conjI)
  note t1 = C2_context_window_constant
    [where unattached = "example_sdd\<lparr>contexts := []\<rparr>" and h = empty_heap,
     THEN conjunct1, THEN mp, OF e]
  then obtain c1 self1 h1 where big1:
    "initialize_or_reattach_contexts (example_sdd\<lparr>contexts := []\<rparr>) empty_heap
          = Inr ((c1, self1), h1)
     \<and> length (contexts self1) = window_size_of self1
     \<and> window_size_of self1 = window_size_of (example_sdd\<lparr>contexts := []\<rparr>)"
    by (elim exE)
  have "window_size_of (example_sdd\<lparr>contexts := []\<rparr>) = 2"
    by (simp add: window_size_of_def with_prefetch_def example_sdd_def)
  with big1 have l: "length (contexts self1) = 2" by simp
  have 1: "\<exists>c self1 h1. initialize_or_reattach_contexts (example_sdd\<lparr>contexts := []\<rparr>) empty_heap
                    = Inr ((c, self1), h1)
        \<and> length (contexts self1) = 2"
    using big1[THEN conjunct1] l by (intro exI conjI)
  from 1 2 show ?thesis by (rule conjI)
qed

section \<open>The order of waiting, advancing and starting\<close>

lemma wait_sparse_data_dist_effect:
  assumes "start_dist_context self = Inr w"
  shows "\<exists>hw. wait_sparse_data_dist self h = Inr hw
     \<and> next_ctx hw = next_ctx h \<and> module_forward hw = module_forward h
     \<and> trace hw = trace h @ [WaitSparseDataDist w]
     \<and> (\<forall>a. a \<noteq> w \<longrightarrow> ctx_store hw a = ctx_store h a)
     \<and> fused_splits_awaitables (ctx_store hw w) = []
     \<and> input_dist_splits_requests (ctx_store hw w) = []"
  using assms
  by (simp add: wait_sparse_data_dist_def wait_dist_context_def Let_def
        should_assert_context_invariants_def WITH_CONTEXT_ASSERTIONS_def)

lemma length_two: "length xs = 2 \<Longrightarrow> \<exists>a b. xs = [a, b]"
proof -
  assume l: "length xs = 2"
  then obtain a ys where x: "xs = a # ys" by (cases xs) auto
  with l obtain b zs where y: "ys = b # zs" by (cases ys) auto
  with l x have "zs = []" by simp
  with x y show ?thesis by blast
qed

lemma length_three: "length xs = 3 \<Longrightarrow> \<exists>a b c. xs = [a, b, c]"
proof -
  assume l: "length xs = 3"
  then obtain a ys where x: "xs = a # ys" by (cases xs) auto
  with l have "length ys = 2" by simp
  from length_two[OF this] x show ?thesis by blast
qed

lemma start_dist_context_last:
  assumes len: "length (contexts self) = window_size_of self"
  shows "start_dist_context self = Inr (last (contexts self))"
proof (cases "with_prefetch self")
  case True
  with len have "length (contexts self) = 3" by (simp add: window_size_of_def)
  from length_three[OF this] obtain a b c where "contexts self = [a, b, c]" by blast
  with True show ?thesis by (simp add: start_dist_context_def list_index_def)
next
  case False
  with len have "length (contexts self) = 2" by (simp add: window_size_of_def)
  from length_two[OF this] obtain a b where "contexts self = [a, b]" by blast
  with False show ?thesis by (simp add: start_dist_context_def list_index_def)
qed

lemma forward_hook_effect:
  assumes len: "length (contexts self) = window_size_of self"
    and att: "attached (pipelined_modules self) h"
    and below: "\<forall>a\<in>set (contexts self). a < next_ctx h"
  shows "\<exists>h'. forward_hook self h
            = Inr (self\<lparr>contexts := tl (contexts self) @ [next_ctx h],
                        next_index := next_index self + 1\<rparr>, h')
        \<and> trace h' = trace h @ [WaitSparseDataDist (last (contexts self)),
                                 AdvanceContext (hd (contexts self)) (next_ctx h)]
        \<and> fused_splits_awaitables (ctx_store h' (last (contexts self))) = []
        \<and> input_dist_splits_requests (ctx_store h' (last (contexts self))) = []
        \<and> next_ctx h' = Suc (next_ctx h)
        \<and> ctx_store h' (next_ctx h) = new_context (with_prefetch self) (next_index self)"
proof -
  define w where "w = last (contexts self)"
  define N where "N = next_ctx h"
  from len obtain oldest rest where c: "contexts self = oldest # rest"
    by (cases "contexts self") (auto simp: window_size_of_def split: if_splits)
  have sd: "start_dist_context self = Inr w"
    unfolding w_def by (rule start_dist_context_last[OF len])
  from below have below': "\<forall>a\<in>set (contexts self). a < N" unfolding N_def by blast
  have "w \<in> set (contexts self)" unfolding w_def using c by simp
  with below' have wN: "w < N" by blast
  from wait_sparse_data_dist_effect[OF sd, of h] obtain hw where
    wt: "wait_sparse_data_dist self h = Inr hw" and
    nw: "next_ctx hw = N" and mf: "module_forward hw = module_forward h" and
    tw: "trace hw = trace h @ [WaitSparseDataDist w]" and
    fw: "fused_splits_awaitables (ctx_store hw w) = []" and
    iw: "input_dist_splits_requests (ctx_store hw w) = []"
    unfolding N_def by blast
  from att mf have aw: "attached (pipelined_modules self) hw" by (simp add: attached_def)
  define self' where
    "self' = self\<lparr>contexts := rest @ [N], next_index := next_index self + 1\<rparr>"
  from advance_context_effect[OF c aw] obtain h' where
    adv: "advance_context self hw = Inr (self', h')" and
    nx: "next_ctx h' = Suc (next_ctx hw)" and
    cs: "ctx_store h' = (ctx_store hw)(N := new_context (with_prefetch self) (next_index self))"
    and tr: "trace h' = trace hw @ [AdvanceContext oldest (next_ctx hw)]"
    unfolding self'_def nw by blast
  have hook: "forward_hook self h = Inr (self', h')"
    by (simp add: forward_hook_def wt adv)
  have t': "trace h' = trace h @ [WaitSparseDataDist w, AdvanceContext oldest N]"
    using tr tw nw by simp
  have f': "fused_splits_awaitables (ctx_store h' w) = []"
    and i': "input_dist_splits_requests (ctx_store h' w) = []"
    using cs fw iw wN by simp_all
  have n': "ctx_store h' N = new_context (with_prefetch self) (next_index self)"
    using cs by simp
  have nx': "next_ctx h' = Suc N" using nx nw by simp
  from hook t' f' i' nx' n' show ?thesis
    unfolding w_def N_def self'_def using c by simp
qed

lemma set_forward_contexts_attached:
  "set_forward_contexts ms c h = Inr h' \<Longrightarrow> attached ms h"
proof (induction ms arbitrary: h)
  case Nil
  show ?case by (simp add: attached_def)
next
  case (Cons m ms)
  from Cons.prems obtain f where f: "module_forward h (mod_id m) = InterceptingForward f"
    by (auto split: callable.splits)
  define h1 where "h1 = h\<lparr>module_forward := (module_forward h)
                 (mod_id m := InterceptingForward (f\<lparr>fwd_context := c\<rparr>))\<rparr>"
  from Cons.prems f have "set_forward_contexts ms c h1 = Inr h'" by (simp add: h1_def)
  from Cons.IH[OF this] have "attached ms h1" .
  then have "attached ms h"
    using f by (auto simp: attached_def h1_def list_all_iff split: callable.splits if_splits)
  with f show ?case by (simp add: attached_def)
qed

lemma advance_context_attached:
  assumes "advance_context self h = Inr r"
  shows "attached (pipelined_modules self) h"
proof -
  from assms obtain oldest rest where c: "contexts self = oldest # rest"
    by (cases "contexts self") (auto simp: advance_context_def split: sum.splits)
  define h0 where "h0 = h\<lparr>trace := trace h @ [AdvanceContext oldest (next_ctx h)]\<rparr>"
  obtain self1 h1 where add: "add_context (self\<lparr>contexts := rest\<rparr>) h0 = (self1, h1)"
    by (cases "add_context (self\<lparr>contexts := rest\<rparr>) h0")
  then have p: "pipelined_modules self1 = pipelined_modules self"
    and m: "module_forward h1 = module_forward h"
    by (auto simp: add_context_def create_context_def h0_def)
  from assms c add obtain cur h2 where "set_module_context self1 cur h1 = Inr h2"
    by (auto simp: advance_context_def h0_def split: sum.splits)
  then obtain h3 where "set_forward_contexts (pipelined_modules self1) cur h1 = Inr h3"
    by (auto simp: set_module_context_def split: sum.splits)
  from set_forward_contexts_attached[OF this] p m show ?thesis by (simp add: attached_def)
qed

lemma forward_hook_attached:
  assumes "forward_hook self h = Inr r"
  shows "attached (pipelined_modules self) h"
proof -
  from assms obtain hw where w: "wait_sparse_data_dist self h = Inr hw"
    and a: "advance_context self hw = Inr r"
    by (auto simp: forward_hook_def split: sum.splits)
  from w have "module_forward hw = module_forward h"
    by (auto simp: wait_sparse_data_dist_def Let_def split: sum.splits)
  with advance_context_attached[OF a] show ?thesis by (simp add: attached_def)
qed

lemma fuse_input_dist_splits_frame:
  "fuse_input_dist_splits api c h = Inr h' \<Longrightarrow> trace h' = trace h \<and> next_ctx h' = next_ctx h"
  by (auto simp: fuse_input_dist_splits_def split: sum.splits)

lemma start_data_dist_modules_frame:
  "start_data_dist_modules api ms batch c h = Inr h' \<Longrightarrow>
     trace h' = trace h \<and> next_ctx h' = next_ctx h"
proof (induction ms arbitrary: h)
  case Nil
  then show ?case by simp
next
  case (Cons m ms)
  from Cons.prems obtain f where f: "module_forward h (mod_id m) = InterceptingForward f"
    by (auto split: callable.splits)
  from Cons.prems f obtain args kwargs h1 where
    b: "build_args_kwargs (fwd_args f) batch h = Inr ((args, kwargs), h1)"
    by (auto split: sum.splits)
  from Cons.prems f b obtain request where
    q: "input_dist_of api m (create_context_of api m) args kwargs = Inr request"
    by (auto split: sum.splits)
  from Cons.prems f b q obtain cs where
    r: "start_data_dist_modules api ms batch c (h1\<lparr>ctx_store := cs\<rparr>) = Inr h'"
    by simp
  from reconstruction_only_ran(5)[of "fwd_args f"] b
  have "only_ran (set (reached_callargs (fwd_args f))) h h1" by blast
  then have "trace h1 = trace h" "next_ctx h1 = next_ctx h" by (simp_all add: only_ran_def)
  with Cons.IH[OF r] show ?case by simp
qed

lemma start_data_dist_effect:
  assumes "start_data_dist api ms batch c h = Inr h'"
  shows "trace h' = trace h @ [StartDataDist c] \<and> next_ctx h' = next_ctx h"
proof -
  define g where
    "g = (if version (ctx_store h c) = 0
          then h\<lparr>ctx_store := (ctx_store h)
                   (c := (ctx_store h c)
                      \<lparr>input_dist_splits_requests := [],
                       module_contexts_next_batch := [],
                       fused_splits_awaitables := []\<rparr>),
                 trace := trace h @ [StartDataDist c]\<rparr>
          else h\<lparr>trace := trace h @ [StartDataDist c]\<rparr>)"
  have g: "trace g = trace h @ [StartDataDist c]" "next_ctx g = next_ctx h"
    by (simp_all add: g_def)
  from assms have "(case start_data_dist_modules api ms batch c g of
                      Inl e \<Rightarrow> Inl e
                    | Inr h1 \<Rightarrow> fuse_input_dist_splits api c h1) = Inr h'"
    by (simp add: start_data_dist_def g_def)
  then obtain h1 where
    m: "start_data_dist_modules api ms batch c g = Inr h1" and
    f: "fuse_input_dist_splits api c h1 = Inr h'"
    by (auto split: sum.splits)
  from start_data_dist_modules_frame[OF m] fuse_input_dist_splits_frame[OF f] g
  show ?thesis by simp
qed

lemma restore_contexts_frame:
  "trace (fold (\<lambda>(postproc_mod, context) h.
                  h\<lparr>pp_context := (pp_context h)(pp_id postproc_mod := context)\<rparr>) xs h) = trace h
   \<and> next_ctx (fold (\<lambda>(postproc_mod, context) h.
                  h\<lparr>pp_context := (pp_context h)(pp_id postproc_mod := context)\<rparr>) xs h) = next_ctx h"
  by (induction xs arbitrary: h) auto

lemma start_sparse_data_dist_effect:
  assumes i: "initialized self"
    and r: "start_sparse_data_dist api init batch self h = Inr r"
  shows "\<exists>c h'. start_dist_context self = Inr c \<and> r = ((batch, self), h')
           \<and> trace h' = trace h @ [StartDataDist c] \<and> next_ctx h' = next_ctx h"
proof -
  from i r obtain c where c: "start_dist_context self = Inr c"
    by (auto simp: start_sparse_data_dist_def split: sum.splits)
  from i r c obtain h' where
    u: "use_context_for_postprocs (pipelined_postprocs self) c
          (start_data_dist api (pipelined_modules self) batch c) h = Inr h'"
    and r': "r = ((batch, self), h')"
    by (auto simp: start_sparse_data_dist_def split: sum.splits)
  define g where "g = set_postproc_contexts (pipelined_postprocs self) c h"
  from u obtain h1 where
    s: "start_data_dist api (pipelined_modules self) batch c g = Inr h1" and
    h': "h' = fold (\<lambda>(postproc_mod, context) h.
                  h\<lparr>pp_context := (pp_context h)(pp_id postproc_mod := context)\<rparr>)
               (zip (pipelined_postprocs self)
                  (map (\<lambda>p. pp_context h (pp_id p)) (pipelined_postprocs self))) h1"
    by (auto simp: use_context_for_postprocs_def Let_def g_def split: sum.splits)
  have gt: "trace g = trace h" "next_ctx g = next_ctx h"
    using set_postproc_contexts_effect[of "pipelined_postprocs self" c h] by (simp_all add: g_def)
  have "trace h' = trace h1" "next_ctx h' = next_ctx h1"
    unfolding h' using restore_contexts_frame by blast+
  with start_data_dist_effect[OF s] gt
  have "trace h' = trace h @ [StartDataDist c] \<and> next_ctx h' = next_ctx h" by simp
  with c r' show ?thesis by blast
qed

lemma run_calls_order:
  assumes "run_calls api init calls self h = Inr (selfN, hN)"
    and "initialized self"
    and "length (contexts self) = window_size_of self"
    and "\<forall>a\<in>set (contexts self). a < next_ctx h"
  shows "\<exists>es. trace hN = trace h @ es \<and> wait_advance_start (last (contexts self)) es"
  using assms
proof (induction calls arbitrary: self h)
  case Nil
  then show ?case by simp
next
  case (Cons c calls)
  note len = Cons.prems(3) and below = Cons.prems(4) and init = Cons.prems(2)
  from Cons.prems(1) obtain self1 h1 where
    step: "call_sdd api init c self h = Inr (self1, h1)" and
    rest: "run_calls api init calls self1 h1 = Inr (selfN, hN)"
    by (auto split: sum.splits)
  have sd: "start_dist_context self = Inr (last (contexts self))"
    by (rule start_dist_context_last[OF len])
  have hook: "forward_hook self h = Inr (self1, h1) \<Longrightarrow> ?case"
  proof -
    assume fh: "forward_hook self h = Inr (self1, h1)"
    from forward_hook_effect[OF len forward_hook_attached[OF fh] below] fh
    have s1: "self1 = self\<lparr>contexts := tl (contexts self) @ [next_ctx h],
                        next_index := next_index self + 1\<rparr>"
      and t1: "trace h1 = trace h @ [WaitSparseDataDist (last (contexts self)),
                                 AdvanceContext (hd (contexts self)) (next_ctx h)]"
      and n1: "next_ctx h1 = Suc (next_ctx h)"
      by auto
    from len have ne: "contexts self \<noteq> []" by (auto simp: window_size_of_def split: if_splits)
    have i1: "initialized self1" using init s1 by simp
    have l1: "length (contexts self1) = window_size_of self1"
      using len ne s1 by (simp add: window_size_of_def with_prefetch_def)
    have b1: "\<forall>a\<in>set (contexts self1). a < next_ctx h1"
    proof
      fix a assume "a \<in> set (contexts self1)"
      with s1 have "a \<in> set (tl (contexts self)) \<or> a = next_ctx h" by auto
      then show "a < next_ctx h1"
      proof
        assume "a \<in> set (tl (contexts self))"
        with ne have "a \<in> set (contexts self)" by (metis list.set_sel(2))
        with below n1 show ?thesis by fastforce
      next
        assume "a = next_ctx h"
        with n1 show ?thesis by simp
      qed
    qed
    from Cons.IH[OF rest i1 l1 b1] obtain es where
      es: "trace hN = trace h1 @ es" "wait_advance_start (last (contexts self1)) es"
      by blast
    have la: "last (contexts self1) = next_ctx h" using s1 by simp
    from ne have "last (contexts self) \<in> set (contexts self)" by simp
    with below have d: "next_ctx h \<noteq> last (contexts self)" by fastforce
    have "wait_advance_start (last (contexts self))
            ([WaitSparseDataDist (last (contexts self)),
              AdvanceContext (hd (contexts self)) (next_ctx h)] @ es)"
      using es(2) la d by simp
    with es(1) t1 show ?case by (intro exI[of _ "[WaitSparseDataDist (last (contexts self)),
              AdvanceContext (hd (contexts self)) (next_ctx h)] @ es"]) simp
  qed
  show ?case
  proof (cases c)
    case (CallStartSparseDataDist batch)
    with step obtain r where
      r: "start_sparse_data_dist api init batch self h = Inr r" and
      r1: "snd (fst r) = self1" "snd r = h1"
      by (auto split: sum.splits)
    from start_sparse_data_dist_effect[OF init r] sd r1
    have s1: "self1 = self" and t1: "trace h1 = trace h @ [StartDataDist (last (contexts self))]"
      and n1: "next_ctx h1 = next_ctx h"
      by auto
    from Cons.IH[OF rest] init len below s1 n1 obtain es where
      es: "trace hN = trace h1 @ es" "wait_advance_start (last (contexts self)) es"
      by auto
    have "wait_advance_start (last (contexts self)) ([StartDataDist (last (contexts self))] @ es)"
      using es(2) by simp
    with es(1) t1 show ?thesis
      by (intro exI[of _ "[StartDataDist (last (contexts self))] @ es"]) simp
  next
    case CallForwardHook
    with step have "forward_hook self h = Inr (self1, h1)" by simp
    then show ?thesis by (rule hook)
  next
    case CallWaitSddFillCallback
    with step have "forward_hook self h = Inr (self1, h1)"
      by (simp add: forward_hook_def wait_sdd_fill_callback_def)
    then show ?thesis by (rule hook)
  qed
qed

text \<open>
  Claim C5. On a full window, the post-forward hook of a utility whose pipelined modules
  carry intercepting forwards returns, and its calls are \<^verbatim>\<open>wait_sparse_data_dist\<close>, on the
  last context of the window (the one \<^verbatim>\<open>_start_dist_context\<close> names), and then
  \<^verbatim>\<open>_advance_context\<close>, which removes the front context and creates a new one; the hook
  starts nothing. After it the waited context has no split request and no fused
  awaitable left, and the context that \<^verbatim>\<open>_start_dist_context\<close> names is the one the
  advance has just created: it was in no window before and its maps are empty.
  \<^verbatim>\<open>wait_sdd_fill_callback\<close> does the same as the hook. On an initialized utility
  \<^verbatim>\<open>start_sparse_data_dist\<close>, when it returns, has made one call of \<^verbatim>\<open>_start_data_dist\<close>
  on the context that \<^verbatim>\<open>_start_dist_context\<close> names, and has left the window as it was.
  Hence in every sequence of these calls that a pipeline makes and that raises nothing,
  whatever the order and the number of iterations: each start addresses the context
  that the last advance before it created (the last context of the initial window
  before the first advance), and each advance follows at once a wait on the context
  that the starts before it addressed. So the wait on the context of one batch and the
  advance come before any start on the context of the next batch.
\<close>

theorem C5_wait_then_advance_then_start:
  "length (contexts self) = window_size_of self \<and> (\<forall>a\<in>set (contexts self). a < next_ctx h) \<longrightarrow>
     (attached (pipelined_modules self) h \<longrightarrow>
        (\<exists>self' h'. forward_hook self h = Inr (self', h')
           \<and> start_dist_context self = Inr (last (contexts self))
           \<and> trace h' = trace h @ [WaitSparseDataDist (last (contexts self)),
                                    AdvanceContext (hd (contexts self)) (next_ctx h)]
           \<and> fused_splits_awaitables (ctx_store h' (last (contexts self))) = []
           \<and> input_dist_splits_requests (ctx_store h' (last (contexts self))) = []
           \<and> start_dist_context self' = Inr (next_ctx h)
           \<and> next_ctx h \<notin> set (contexts self)
           \<and> ctx_store h' (next_ctx h) = new_context (with_prefetch self) (next_index self)))
     \<and> wait_sdd_fill_callback self h = forward_hook self h
     \<and> (initialized self \<longrightarrow>
          (\<forall>batch r. start_sparse_data_dist api initialize_or_reattach batch self h = Inr r \<longrightarrow>
             (\<exists>h'. r = ((batch, self), h')
                \<and> trace h' = trace h @ [StartDataDist (last (contexts self))]))
          \<and> (\<forall>calls selfN hN.
                run_calls api initialize_or_reattach calls self h = Inr (selfN, hN) \<longrightarrow>
                (\<exists>es. trace hN = trace h @ es
                   \<and> wait_advance_start (last (contexts self)) es)))"
proof (intro impI conjI allI)
  assume asm: "length (contexts self) = window_size_of self
     \<and> (\<forall>a\<in>set (contexts self). a < next_ctx h)"
  then have len: "length (contexts self) = window_size_of self"
    and below: "\<forall>a\<in>set (contexts self). a < next_ctx h" by blast+
  have sd: "start_dist_context self = Inr (last (contexts self))"
    by (rule start_dist_context_last[OF len])
  {
    assume att: "attached (pipelined_modules self) h"
    define self' where "self' = self\<lparr>contexts := tl (contexts self) @ [next_ctx h],
                        next_index := next_index self + 1\<rparr>"
    from forward_hook_effect[OF len att below] obtain h' where
      hook: "forward_hook self h = Inr (self', h')" and
      t': "trace h' = trace h @ [WaitSparseDataDist (last (contexts self)),
                                 AdvanceContext (hd (contexts self)) (next_ctx h)]" and
      f': "fused_splits_awaitables (ctx_store h' (last (contexts self))) = []" and
      i': "input_dist_splits_requests (ctx_store h' (last (contexts self))) = []" and
      n': "ctx_store h' (next_ctx h) = new_context (with_prefetch self) (next_index self)"
      unfolding self'_def by blast
    from len have ne: "contexts self \<noteq> []" by (auto simp: window_size_of_def split: if_splits)
    have len': "length (contexts self') = window_size_of self'"
      using len ne by (simp add: self'_def window_size_of_def with_prefetch_def)
    have "start_dist_context self' = Inr (last (contexts self'))"
      by (rule start_dist_context_last[OF len'])
    then have sd': "start_dist_context self' = Inr (next_ctx h)" by (simp add: self'_def)
    from below have fresh: "next_ctx h \<notin> set (contexts self)" by blast
    from hook sd t' f' i' sd' fresh n'
    show "\<exists>self' h'. forward_hook self h = Inr (self', h')
           \<and> start_dist_context self = Inr (last (contexts self))
           \<and> trace h' = trace h @ [WaitSparseDataDist (last (contexts self)),
                                    AdvanceContext (hd (contexts self)) (next_ctx h)]
           \<and> fused_splits_awaitables (ctx_store h' (last (contexts self))) = []
           \<and> input_dist_splits_requests (ctx_store h' (last (contexts self))) = []
           \<and> start_dist_context self' = Inr (next_ctx h)
           \<and> next_ctx h \<notin> set (contexts self)
           \<and> ctx_store h' (next_ctx h) = new_context (with_prefetch self) (next_index self)"
      by blast
  }
  show "wait_sdd_fill_callback self h = forward_hook self h"
    by (simp add: forward_hook_def wait_sdd_fill_callback_def)
  {
    fix batch r
    assume init: "initialized self"
      and r: "start_sparse_data_dist api initialize_or_reattach batch self h = Inr r"
    from start_sparse_data_dist_effect[OF init r] sd
    show "\<exists>h'. r = ((batch, self), h')
            \<and> trace h' = trace h @ [StartDataDist (last (contexts self))]"
      by auto
  }
  {
    fix calls selfN hN
    assume init: "initialized self"
      and r: "run_calls api initialize_or_reattach calls self h = Inr (selfN, hN)"
    from run_calls_order[OF r init len below]
    show "\<exists>es. trace hN = trace h @ es \<and> wait_advance_start (last (contexts self)) es" .
  }
qed

text \<open>The instance: on the window \<open>[0, 1]\<close> the hook waits on context \<open>1\<close>, advances
  past context \<open>0\<close> and leaves the new context \<open>2\<close> for the next start; and two iterations
  of a pipeline, the second one a fill, followed by a third start.\<close>

theorem C5_witness:
  "(\<exists>self' h'. forward_hook example_sdd attached_heap = Inr (self', h')
      \<and> trace h' = [WaitSparseDataDist 1, AdvanceContext 0 2]
      \<and> start_dist_context self' = Inr 2
      \<and> wait_sdd_fill_callback example_sdd attached_heap = Inr (self', h'))
   \<and> (\<exists>selfN hN.
        run_calls example_api (\<lambda>batch self h. Inr (self, h))
          [CallStartSparseDataDist example_batch, CallForwardHook,
           CallStartSparseDataDist example_batch, CallWaitSddFillCallback,
           CallStartSparseDataDist example_batch] example_sdd attached_heap = Inr (selfN, hN)
        \<and> trace hN = [StartDataDist 1, WaitSparseDataDist 1, AdvanceContext 0 2,
                      StartDataDist 2, WaitSparseDataDist 2, AdvanceContext 1 3,
                      StartDataDist 3]
        \<and> wait_advance_start 1 (trace hN))
   \<and> (\<exists>h1. start_sparse_data_dist example_api (\<lambda>batch self h. Inr (self, h)) example_batch
              example_sdd attached_heap = Inr ((example_batch, example_sdd), h1)
        \<and> trace h1 = [StartDataDist 1])"
proof -
  have a1: "length (contexts example_sdd) = window_size_of example_sdd"
    by (simp add: example_sdd_def window_size_of_def with_prefetch_def)
  have a2: "attached (pipelined_modules example_sdd) attached_heap"
    by (simp add: example_sdd_def attached_def attached_heap_def example_ebc_def)
  have a3: "\<forall>a\<in>set (contexts example_sdd). a < next_ctx attached_heap"
    by (simp add: example_sdd_def attached_heap_def)
  have a4: "initialized example_sdd" by (simp add: example_sdd_def)
  note t = C5_wait_then_advance_then_start[where self = example_sdd and h = attached_heap
      and api = example_api and initialize_or_reattach = "\<lambda>batch self h. Inr (self, h)",
      THEN mp, OF conjI, OF a1 a3]
  note hookpart = t[THEN conjunct1, THEN mp, OF a2]
  note fill = t[THEN conjunct2, THEN conjunct1]
  note sched = t[THEN conjunct2, THEN conjunct2, THEN mp, OF a4, THEN conjunct2]
  from hookpart obtain self' h' where big:
    "forward_hook example_sdd attached_heap = Inr (self', h')
       \<and> start_dist_context example_sdd = Inr (last (contexts example_sdd))
       \<and> trace h' = trace attached_heap @ [WaitSparseDataDist (last (contexts example_sdd)),
                                    AdvanceContext (hd (contexts example_sdd)) (next_ctx attached_heap)]
       \<and> fused_splits_awaitables (ctx_store h' (last (contexts example_sdd))) = []
       \<and> input_dist_splits_requests (ctx_store h' (last (contexts example_sdd))) = []
       \<and> start_dist_context self' = Inr (next_ctx attached_heap)
       \<and> next_ctx attached_heap \<notin> set (contexts example_sdd)
       \<and> ctx_store h' (next_ctx attached_heap)
           = new_context (with_prefetch example_sdd) (next_index example_sdd)"
    by (elim exE)
  note r = big[THEN conjunct1]
  note tr = big[THEN conjunct2, THEN conjunct2, THEN conjunct1]
  note s = big[THEN conjunct2, THEN conjunct2, THEN conjunct2, THEN conjunct2, THEN conjunct2,
               THEN conjunct1]
  have t': "trace h' = [WaitSparseDataDist 1, AdvanceContext 0 2]"
    unfolding tr by (simp add: example_sdd_def attached_heap_def empty_heap_def)
  have s': "start_dist_context self' = Inr 2"
    unfolding s by (simp add: attached_heap_def)
  have f': "wait_sdd_fill_callback example_sdd attached_heap = Inr (self', h')"
    unfolding fill by (rule r)
  have first: "\<exists>self' h'. forward_hook example_sdd attached_heap = Inr (self', h')
      \<and> trace h' = [WaitSparseDataDist 1, AdvanceContext 0 2]
      \<and> start_dist_context self' = Inr 2
      \<and> wait_sdd_fill_callback example_sdd attached_heap = Inr (self', h')"
    using r t' s' f' by (intro exI conjI)
  have "\<exists>selfN hN.
      run_calls example_api (\<lambda>batch self h. Inr (self, h))
        [CallStartSparseDataDist example_batch, CallForwardHook,
         CallStartSparseDataDist example_batch, CallWaitSddFillCallback,
         CallStartSparseDataDist example_batch] example_sdd attached_heap = Inr (selfN, hN)
      \<and> trace hN = [StartDataDist 1, WaitSparseDataDist 1, AdvanceContext 0 2,
                      StartDataDist 2, WaitSparseDataDist 2, AdvanceContext 1 3,
                      StartDataDist 3]"
    by (simp add: start_sparse_data_dist_def use_context_for_postprocs_def start_data_dist_def
        fuse_input_dist_splits_def names_per_pg_def example_api_def example_sdd_def
        attached_heap_def empty_heap_def empty_context_def example_forward_def example_ebc_def
        example_postproc_def forward_hook_def wait_sdd_fill_callback_def
        wait_sparse_data_dist_def wait_dist_context_def
        start_dist_context_def list_index_def advance_context_def add_context_def
        create_context_def context_for_model_forward_def current_context_def
        set_module_context_def should_assert_context_invariants_def WITH_CONTEXT_ASSERTIONS_def
        assert_contexts_count_def new_context_def TRAIN_CONTEXT_VERSION_def with_prefetch_def
        run_list_def Let_def)
  then obtain selfN hN where
    run: "run_calls example_api (\<lambda>batch self h. Inr (self, h))
        [CallStartSparseDataDist example_batch, CallForwardHook,
         CallStartSparseDataDist example_batch, CallWaitSddFillCallback,
         CallStartSparseDataDist example_batch] example_sdd attached_heap = Inr (selfN, hN)"
    and trN: "trace hN = [StartDataDist 1, WaitSparseDataDist 1, AdvanceContext 0 2,
                      StartDataDist 2, WaitSparseDataDist 2, AdvanceContext 1 3,
                      StartDataDist 3]"
    by blast
  from sched[rule_format, OF run] obtain es where
    es: "trace hN = trace attached_heap @ es"
      "wait_advance_start (last (contexts example_sdd)) es"
    by blast
  have "trace attached_heap = []" by (simp add: attached_heap_def empty_heap_def)
  with es have "wait_advance_start 1 (trace hN)" by (simp add: example_sdd_def)
  with run trN have second: "\<exists>selfN hN.
        run_calls example_api (\<lambda>batch self h. Inr (self, h))
          [CallStartSparseDataDist example_batch, CallForwardHook,
           CallStartSparseDataDist example_batch, CallWaitSddFillCallback,
           CallStartSparseDataDist example_batch] example_sdd attached_heap = Inr (selfN, hN)
        \<and> trace hN = [StartDataDist 1, WaitSparseDataDist 1, AdvanceContext 0 2,
                      StartDataDist 2, WaitSparseDataDist 2, AdvanceContext 1 3,
                      StartDataDist 3]
        \<and> wait_advance_start 1 (trace hN)"
    by blast
  note startpart = t[THEN conjunct2, THEN conjunct2, THEN mp, OF a4, THEN conjunct1]
  have "\<exists>r. start_sparse_data_dist example_api (\<lambda>batch self h. Inr (self, h)) example_batch
              example_sdd attached_heap = Inr r"
    by (simp add: start_sparse_data_dist_def use_context_for_postprocs_def start_data_dist_def
        fuse_input_dist_splits_def names_per_pg_def example_api_def example_sdd_def
        attached_heap_def empty_heap_def empty_context_def example_forward_def example_ebc_def
        example_postproc_def start_dist_context_def list_index_def with_prefetch_def
        run_list_def Let_def)
  then obtain r where
    st: "start_sparse_data_dist example_api (\<lambda>batch self h. Inr (self, h)) example_batch
              example_sdd attached_heap = Inr r"
    by blast
  from startpart[rule_format, OF st] obtain h1 where
    h1: "r = ((example_batch, example_sdd), h1)"
      "trace h1 = trace attached_heap @ [StartDataDist (last (contexts example_sdd))]"
    by blast
  have "trace h1 = [StartDataDist 1]"
    unfolding h1(2) by (simp add: attached_heap_def empty_heap_def example_sdd_def)
  with st h1(1) have third: "\<exists>h1. start_sparse_data_dist example_api (\<lambda>batch self h. Inr (self, h))
              example_batch example_sdd attached_heap = Inr ((example_batch, example_sdd), h1)
        \<and> trace h1 = [StartDataDist 1]"
    by blast
  from first second third show ?thesis by (intro conjI)
qed

section \<open>Detaching\<close>

lemma nested_attached_model:
  "swap_postproc_module_recursive nested_root nested_wrapper ''sparse.postproc'' []
     = Module 0 PlainModule (\<lambda>args kwargs. Inr VNone) None
         [(''sparse'',
           Module 2 PlainModule (\<lambda>args kwargs. Inr VNone) None
             [(''ebc'', nested_ebc), (''postproc'', nested_wrapper)])]"
  by (simp add: nested_root_def nested_ebc_def nested_postproc_module_def nested_wrapper_def
        join_path_def)

lemma nested_detach:
  "detach nested_sdd nested_heap
     = Inr (nested_sdd
              \<lparr>sdd_model :=
                 Bare (Module 0 PlainModule (\<lambda>args kwargs. Inr VNone) None
                         [(''sparse'',
                           Module 2 PlainModule (\<lambda>args kwargs. Inr VNone) None
                             [(''ebc'', nested_ebc), (''postproc'', nested_wrapper)]),
                          (''sparse.postproc'', nested_postproc_module)]),
               initialized := False\<rparr>,
            nested_heap
              \<lparr>module_forward := (module_forward nested_heap)(1 := OriginalForward 1),
               dist_forward := (dist_forward nested_heap)(7 := OriginalForward 7),
               forward_hooks := []\<rparr>)"
  unfolding detach_def pipeline_detach_model_def
  by (simp add: nested_sdd_def nested_attached_model kjt_dists_of_def nested_ebc_def
        setattr_module_def nested_heap_def attached_heap_def Let_def)

text \<open>
  Claim C6 fails on the code for a nested postproc module. On the attached utility
  above \<^verbatim>\<open>detach\<close> returns; the forward of \<open>ebc\<close> and the forward of its dist are the saved
  originals again, the hook is gone, and the window, \<^verbatim>\<open>_next_index\<close> and every context
  are as before. But the module found under \<open>sparse.postproc\<close>, which was the postproc
  module \<open>3\<close> before attaching and the interceptor \<open>4\<close> while attached, is still the
  interceptor after detaching: \<^verbatim>\<open>setattr(model, "sparse.postproc", ...)\<close> has given the
  root a new child under the dotted name and left \<open>sparse\<close> as it was.
\<close>

theorem C6_detach_leaves_nested_postproc:
  "\<exists>self' h'. detach nested_sdd nested_heap = Inr (self', h')
      \<and> \<not> initialized self'
      \<and> contexts self' = contexts nested_sdd \<and> next_index self' = next_index nested_sdd
      \<and> ctx_store h' = ctx_store nested_heap
      \<and> module_forward h' (mod_id nested_ebc) = OriginalForward 1
      \<and> dist_forward h' 7 = OriginalForward 7
      \<and> forward_hooks h' = []
      \<and> map_option mod_id (find_postproc_module_recursive nested_root ''sparse.postproc'')
          = Some 3
      \<and> map_option mod_id
           (find_postproc_module_recursive (underlying (sdd_model nested_sdd)) ''sparse.postproc'')
          = Some 4
      \<and> map_option mod_id
           (find_postproc_module_recursive (underlying (sdd_model self')) ''sparse.postproc'')
          = Some 4
      \<and> map_option mod_class
           (find_postproc_module_recursive (underlying (sdd_model self')) ''sparse.postproc'')
          = Some PipelinedPostprocModule
      \<and> map_option mod_id (map_of (mod_children (underlying (sdd_model self'))) ''sparse.postproc'')
          = Some 3"
proof -
  have 1: "map_option mod_id (find_postproc_module_recursive nested_root ''sparse.postproc'')
          = Some 3"
    by (simp add: find_postproc_module_recursive_def nested_root_def nested_ebc_def
          nested_postproc_module_def join_path_def)
  have 2: "map_option mod_id
           (find_postproc_module_recursive (underlying (sdd_model nested_sdd)) ''sparse.postproc'')
          = Some 4"
  proof -
    have "underlying (sdd_model nested_sdd)
            = swap_postproc_module_recursive nested_root nested_wrapper ''sparse.postproc'' []"
      by (simp add: nested_sdd_def underlying_def)
    then show ?thesis
      unfolding nested_attached_model
      by (simp add: find_postproc_module_recursive_def nested_ebc_def nested_wrapper_def
            nested_postproc_module_def join_path_def)
  qed
  have 3: "find_postproc_module_recursive
             (Module 0 PlainModule (\<lambda>args kwargs. Inr VNone) None
                         [(''sparse'',
                           Module 2 PlainModule (\<lambda>args kwargs. Inr VNone) None
                             [(''ebc'', nested_ebc), (''postproc'', nested_wrapper)]),
                          (''sparse.postproc'', nested_postproc_module)])
             ''sparse.postproc'' = Some nested_wrapper"
    by (simp add: find_postproc_module_recursive_def nested_ebc_def nested_wrapper_def
          nested_postproc_module_def join_path_def)
  define M where "M = Module 0 PlainModule (\<lambda>args kwargs. Inr VNone) None
                         [(''sparse'',
                           Module 2 PlainModule (\<lambda>args kwargs. Inr VNone) None
                             [(''ebc'', nested_ebc), (''postproc'', nested_wrapper)]),
                          (''sparse.postproc'', nested_postproc_module)]"
  define S where "S = nested_sdd\<lparr>sdd_model := Bare M, initialized := False\<rparr>"
  define H where "H = nested_heap
              \<lparr>module_forward := (module_forward nested_heap)(1 := OriginalForward 1),
               dist_forward := (dist_forward nested_heap)(7 := OriginalForward 7),
               forward_hooks := []\<rparr>"
  have d: "detach nested_sdd nested_heap = Inr (S, H)"
    unfolding S_def H_def M_def by (rule nested_detach)
  have u: "underlying (sdd_model S) = M" by (simp add: S_def underlying_def)
  have f: "find_postproc_module_recursive M ''sparse.postproc'' = Some nested_wrapper"
    unfolding M_def by (rule 3)
  have c: "map_of (mod_children M) ''sparse.postproc'' = Some nested_postproc_module"
    by (simp add: M_def)
  show ?thesis
  proof (intro exI conjI)
    show "detach nested_sdd nested_heap = Inr (S, H)" by (rule d)
    show "\<not> initialized S" by (simp add: S_def)
    show "contexts S = contexts nested_sdd" by (simp add: S_def)
    show "next_index S = next_index nested_sdd" by (simp add: S_def)
    show "ctx_store H = ctx_store nested_heap" by (simp add: H_def)
    show "module_forward H (mod_id nested_ebc) = OriginalForward 1"
      by (simp add: H_def nested_ebc_def)
    show "dist_forward H 7 = OriginalForward 7" by (simp add: H_def)
    show "forward_hooks H = []" by (simp add: H_def)
    show "map_option mod_id (find_postproc_module_recursive nested_root ''sparse.postproc'')
          = Some 3" by (rule 1)
    show "map_option mod_id
           (find_postproc_module_recursive (underlying (sdd_model nested_sdd)) ''sparse.postproc'')
          = Some 4" by (rule 2)
    show "map_option mod_id
           (find_postproc_module_recursive (underlying (sdd_model S)) ''sparse.postproc'')
          = Some 4"
      unfolding u f by (simp add: nested_wrapper_def)
    show "map_option mod_class
           (find_postproc_module_recursive (underlying (sdd_model S)) ''sparse.postproc'')
          = Some PipelinedPostprocModule"
      unfolding u f by (simp add: nested_wrapper_def)
    show "map_option mod_id (map_of (mod_children (underlying (sdd_model S))) ''sparse.postproc'')
          = Some 3"
      unfolding u c by (simp add: nested_postproc_module_def)
  qed
qed

section \<open>The session-level precision metric\<close>

lemma check_tasks_ok:
  "(check_tasks ts = Inr ()) =
     (\<forall>task\<in>set ts. \<exists>d th. session_metric_def task = Some d \<and> top_threshold d = Some th)"
  by (induction ts) (auto split: option.splits)

lemma check_tasks_raises:
  "check_tasks ts \<noteq> Inr () \<Longrightarrow> \<exists>msg. check_tasks ts = Inl (RecMetricException msg)"
  by (induction ts) (auto split: option.splits)

text \<open>
  Claim C8. In an unsupported configuration the constructor raises a
  \<^verbatim>\<open>RecMetricException\<close> before anything is built. Otherwise the checks pass and the
  constructor is the constructor of the base class on the arguments as they were given:
  nothing is substituted for them.
\<close>

theorem C8_unsupported_configuration_rejected:
  "(unsupported_configuration a \<longrightarrow>
      (\<exists>msg. PrecisionSessionMetric_init RecMetric_init a = Inl (RecMetricException msg)))
   \<and> (\<not> unsupported_configuration a \<longrightarrow>
      PrecisionSessionMetric_init RecMetric_init a = RecMetric_init a)"
proof (intro conjI impI)
  assume u: "unsupported_configuration a"
  show "\<exists>msg. PrecisionSessionMetric_init RecMetric_init a = Inl (RecMetricException msg)"
  proof (cases "compute_mode a = FUSED_TASKS_COMPUTATION
      \<or> compute_mode a = FUSED_TASKS_AND_STATES_COMPUTATION \<or> fused_update_limit a > 0")
    case True
    then show ?thesis by (auto simp: PrecisionSessionMetric_init_def)
  next
    case False
    with u obtain task where t: "task \<in> set (tasks a)"
      and "session_metric_def task = None
           \<or> (\<exists>d. session_metric_def task = Some d \<and> top_threshold d = None)"
      unfolding unsupported_configuration_def by blast
    then have "\<not> (\<exists>d th. session_metric_def task = Some d \<and> top_threshold d = Some th)"
      by auto
    with t have "\<not> (\<forall>task\<in>set (tasks a). \<exists>d th. session_metric_def task = Some d \<and> top_threshold d = Some th)"
      by blast
    then have "check_tasks (tasks a) \<noteq> Inr ()" by (simp add: check_tasks_ok)
    then obtain msg where "check_tasks (tasks a) = Inl (RecMetricException msg)"
      using check_tasks_raises by blast
    with False show ?thesis by (auto simp: PrecisionSessionMetric_init_def)
  qed
next
  assume n: "\<not> unsupported_configuration a"
  then have "\<forall>task\<in>set (tasks a). \<exists>d th. session_metric_def task = Some d \<and> top_threshold d = Some th"
    unfolding unsupported_configuration_def
    by (metis not_Some_eq)
  then have "check_tasks (tasks a) = Inr ()" by (simp add: check_tasks_ok)
  with n show "PrecisionSessionMetric_init RecMetric_init a = RecMetric_init a"
    by (auto simp: PrecisionSessionMetric_init_def unsupported_configuration_def)
qed

text \<open>The instance: a task without a top threshold is rejected, the same task with the
  threshold \<open>3\<close> reaches the base constructor unchanged.\<close>

theorem C8_witness:
  "PrecisionSessionMetric_init Inr (example_metric_args None)
     = Inl (RecMetricException ''Please, specify the top threshold'')
   \<and> PrecisionSessionMetric_init Inr (example_metric_args (Some 3))
     = Inr (example_metric_args (Some 3))"
proof -
  have u: "unsupported_configuration (example_metric_args None)"
    by (simp add: unsupported_configuration_def example_metric_args_def example_task_def)
  have n: "\<not> unsupported_configuration (example_metric_args (Some 3))"
    by (simp add: unsupported_configuration_def example_metric_args_def example_task_def)
  from C8_unsupported_configuration_rejected
         [where a = "example_metric_args None" and RecMetric_init = Inr, THEN conjunct1,
          rule_format, OF u]
  obtain msg where m: "PrecisionSessionMetric_init Inr (example_metric_args None)
     = Inl (RecMetricException msg)" by blast
  have "PrecisionSessionMetric_init Inr (example_metric_args None)
     = Inl (RecMetricException ''Please, specify the top threshold'')"
    by (simp add: PrecisionSessionMetric_init_def example_metric_args_def example_task_def)
  moreover from C8_unsupported_configuration_rejected
         [where a = "example_metric_args (Some 3)" and RecMetric_init = Inr, THEN conjunct2,
          rule_format, OF n]
  have "PrecisionSessionMetric_init Inr (example_metric_args (Some 3))
     = Inr (example_metric_args (Some 3))" .
  ultimately show ?thesis using m by blast
qed

section \<open>The hand-off of the data loading thread\<close>

lemma handoff_invariant_init: "handoff_invariant batches (loading_init batches)"
  by (simp add: handoff_invariant_def running_phase_def loading_init_def in_flight_def)

lemma handoff_invariant_run_step:
  "handoff_invariant batches s \<Longrightarrow> handoff_invariant batches (run_step s)"
  by (cases "run_at s")
     (auto simp: handoff_invariant_def running_phase_def run_step_def in_flight_def
           split: list.splits get_pc.splits option.splits)

lemma handoff_invariant_get_next_batch_step:
  "handoff_invariant batches s \<Longrightarrow> handoff_invariant batches (get_next_batch_step s)"
  by (cases "get_at s")
     (auto simp: handoff_invariant_def running_phase_def get_next_batch_step_def in_flight_def
           split: run_pc.splits option.splits)

lemma handoff_invariant_stop_step:
  "handoff_invariant batches s \<Longrightarrow> handoff_invariant batches (stop_step s)"
  by (cases "stop_at s")
     (auto simp: handoff_invariant_def stop_step_def in_flight_def)

lemma handoff_invariant_interleave:
  "handoff_invariant batches s \<Longrightarrow> handoff_invariant batches (interleave schedule s)"
proof (induction schedule arbitrary: s)
  case Nil
  then show ?case by simp
next
  case (Cons t ts)
  have "handoff_invariant batches (thread_step t s)"
    using Cons.prems
    by (cases t)
       (simp_all add: thread_step_def handoff_invariant_run_step
          handoff_invariant_get_next_batch_step handoff_invariant_stop_step)
  from Cons.IH[OF this] show ?case by simp
qed

text \<open>
  Claim C9. With one thread in \<^verbatim>\<open>run\<close>, one consumer calling \<^verbatim>\<open>get_next_batch\<close>, and
  \<^verbatim>\<open>stop\<close> called at any time, under every schedule of their steps: whenever the producer
  is about to assign a batch to the slot, buffer-empty is set and the slot is \<^verbatim>\<open>None\<close>, so
  no batch in the slot is ever overwritten; whenever the consumer is about to empty the
  slot, buffer-filled is set and the slot holds the batch it has read; and the batches
  returned so far, followed by those in flight (at most one of them in the slot) and the
  rest of the iterator, are the batches of the iterator in their order: none is lost,
  repeated or reordered.
\<close>

theorem C9_single_slot_handoff:
  "(\<forall>b. run_at (interleave schedule (loading_init batches)) = RunAssignBuffered b \<longrightarrow>
        buffer_empty_event (interleave schedule (loading_init batches))
        \<and> buffered (interleave schedule (loading_init batches)) = None)
   \<and> (\<forall>b. get_at (interleave schedule (loading_init batches)) = GetAssignNone b \<longrightarrow>
        buffer_filled_event (interleave schedule (loading_init batches))
        \<and> buffered (interleave schedule (loading_init batches)) = Some b)
   \<and> returned (interleave schedule (loading_init batches))
      @ in_flight (interleave schedule (loading_init batches))
      @ dataloader_iter (interleave schedule (loading_init batches)) = batches"
proof -
  have "handoff_invariant batches (interleave schedule (loading_init batches))"
    by (rule handoff_invariant_interleave[OF handoff_invariant_init])
  then show ?thesis unfolding handoff_invariant_def by blast
qed

text \<open>The instance: at its assignment the producer finds the slot empty, and after the
  schedule the first batch is returned and the second is still in the iterator.\<close>

theorem C9_witness:
  "run_at (interleave (take 4 example_schedule) (loading_init [1::nat, 2])) = RunAssignBuffered 1
   \<and> buffered (interleave (take 4 example_schedule) (loading_init [1::nat, 2])) = None
   \<and> returned (interleave example_schedule (loading_init [1::nat, 2])) = [1]
   \<and> returned (interleave example_schedule (loading_init [1::nat, 2]))
      @ in_flight (interleave example_schedule (loading_init [1::nat, 2]))
      @ dataloader_iter (interleave example_schedule (loading_init [1::nat, 2])) = [1, 2]"
proof -
  have a: "run_at (interleave (take 4 example_schedule) (loading_init [1::nat, 2]))
             = RunAssignBuffered 1"
    by (simp add: example_schedule_def loading_init_def thread_step_def run_step_def)
  have r: "returned (interleave example_schedule (loading_init [1::nat, 2])) = [1]"
    by (simp add: example_schedule_def loading_init_def thread_step_def run_step_def
          get_next_batch_step_def)
  note t4 = C9_single_slot_handoff
    [where schedule = "take 4 example_schedule" and batches = "[1::nat, 2]"]
  note t = C9_single_slot_handoff
    [where schedule = example_schedule and batches = "[1::nat, 2]"]
  from t4[THEN conjunct1, THEN spec, THEN mp, OF a, THEN conjunct2] a r
       t[THEN conjunct2, THEN conjunct2]
  show ?thesis by (intro conjI)
qed

end
